theory Spec2Isabelle
  imports Complex_Main "HOL-Library.Word"
begin

section \<open>Images\<close>

text \<open>
  A \<open>cv::Mat\<close> is a list of rows, a row is a list of pixels; the default-constructed
  (empty) matrix is the empty list. An 8-bit channel is an \<open>uchar\<close>; the decoded
  picture has three of them per pixel, in the order B, G, R (channels 0, 1, 2). The
  floating-point matrices of the vignette filter have three real channels per pixel.
\<close>

type_synonym uchar = "8 word"
type_synonym 'a Mat = "'a list list"
type_synonym 'a Vec3 = "'a \<times> 'a \<times> 'a"

definition rows :: "'a Mat \<Rightarrow> nat" where
  "rows m = length m"

definition cols :: "'a Mat \<Rightarrow> nat" where
  "cols m = (case m of [] \<Rightarrow> 0 | r # _ \<Rightarrow> length r)"

definition empty_mat :: "'a Mat \<Rightarrow> bool" where
  "empty_mat m \<longleftrightarrow> rows m = 0 \<or> cols m = 0"

text \<open>Every row of a matrix has the same number of pixels.\<close>

definition rect :: "'a Mat \<Rightarrow> bool" where
  "rect m \<longleftrightarrow> list_all (\<lambda>r. length r = cols m) m"

definition same_size :: "'a Mat \<Rightarrow> 'b Mat \<Rightarrow> bool" where
  "same_size a b \<longleftrightarrow> map length a = map length b"

definition ch0 :: "'a Vec3 \<Rightarrow> 'a" where "ch0 p = fst p"
definition ch1 :: "'a Vec3 \<Rightarrow> 'a" where "ch1 p = fst (snd p)"
definition ch2 :: "'a Vec3 \<Rightarrow> 'a" where "ch2 p = snd (snd p)"

text \<open>The errors of the program: \<open>main\<close> catches a thrown string and a \<open>cv::Exception\<close>.\<close>

datatype error = StringError | CvException

section \<open>The colour filter\<close>

text \<open>
  \<open>cvRound\<close> rounds to the nearest integer, a tie to the even neighbour (the
  processor's default rounding).
\<close>

definition cvRound :: "real \<Rightarrow> int" where
  "cvRound v =
     (let f = \<lfloor>v\<rfloor>; d = v - of_int f
      in if d < 1 / 2 then f else if 1 / 2 < d then f + 1 else if even f then f else f + 1)"

definition exp_e :: real where
  "exp_e = exp 1"

text \<open>
  The body of the loop of \<open>trackbar_color\<close>: the value handed to \<open>cvRound\<close> for index
  \<open>i\<close> and steepness \<open>sv\<close>. The arithmetic on \<open>double\<close> and the library's \<open>pow\<close> and
  \<open>exp\<close>, which no standard fixes to the last bit, are read as the exact operations
  on the reals (\<open>x\<close>, a \<open>float\<close>, and \<open>x - 0.5\<close> are exact as they stand).
\<close>

definition lut_value :: "int \<Rightarrow> nat \<Rightarrow> real" where
  "lut_value sv i =
     (let x = real i / 256
      in 256 * (1 / (1 + exp_e powr (- ((x - 0.5) / (real_of_int sv / 100))))))"

text \<open>
  The store \<open>lut.at<uchar>(i) = cvRound(...)\<close> converts the \<open>int\<close> to \<open>uchar\<close>: it keeps
  the low eight bits (\<open>word_of_int\<close>).
\<close>

definition build_lut :: "int \<Rightarrow> uchar list" where
  "build_lut sv = map (\<lambda>i. word_of_int (cvRound (lut_value sv i))) [0..<256]"

text \<open>
  \<open>cv::split\<close>, \<open>cv::LUT\<close> and \<open>cv::merge\<close> on a three-channel picture. The table of
  \<open>cv::LUT\<close> has 256 entries, as the one of \<open>trackbar_color\<close> has, so that every
  \<open>uchar\<close> indexes it.
\<close>

definition split_cv :: "'a Vec3 Mat \<Rightarrow> 'a Mat list" where
  "split_cv m = [map (map ch0) m, map (map ch1) m, map (map ch2) m]"

definition LUT_cv :: "uchar Mat \<Rightarrow> uchar list \<Rightarrow> uchar Mat" where
  "LUT_cv src lut = map (map (\<lambda>v. lut ! unat v)) src"

definition merge_row :: "'a list \<Rightarrow> 'a list \<Rightarrow> 'a list \<Rightarrow> 'a Vec3 list" where
  "merge_row b g r = zip b (zip g r)"

definition merge_cv :: "'a Mat list \<Rightarrow> 'a Vec3 Mat" where
  "merge_cv bgr = map (\<lambda>(b, g, r). merge_row b g r) (zip (bgr ! 0) (zip (bgr ! 1) (bgr ! 2)))"

text \<open>
  The channel remapping of \<open>trackbar_color\<close>, lines \<open>cv::split\<close> to \<open>merge\<close>: the red
  plane \<open>bgr[2]\<close> is replaced by its image under the table.
\<close>

definition remap_red :: "uchar Vec3 Mat \<Rightarrow> uchar list \<Rightarrow> uchar Vec3 Mat" where
  "remap_red im lut =
     (let bgr = split_cv im;
          bgr' = bgr[2 := LUT_cv (bgr ! 2) lut]
      in merge_cv bgr')"

section \<open>The session\<close>

text \<open>
  The global variables of the program, and the picture last handed to \<open>cv::imshow\<close>.
\<close>

record session =
  img :: "uchar Vec3 Mat"
  result :: "uchar Vec3 Mat"
  display :: "uchar Vec3 Mat"
  s :: int
  radius :: int
  shown :: "uchar Vec3 Mat"

text \<open>\<open>cv::imshow\<close> raises on an empty picture.\<close>

definition imshow :: "uchar Vec3 Mat \<Rightarrow> session \<Rightarrow> error + session" where
  "imshow m st = (if empty_mat m then Inl CvException else Inr (st\<lparr>shown := m\<rparr>))"

text \<open>
  \<open>trackbar_color\<close>. \<open>main\<close> installs the callback only once the picture is decoded
  and not empty; on an empty picture \<open>cv::split\<close> yields no plane and the toolkit
  raises.
\<close>

definition trackbar_color :: "session \<Rightarrow> error + session" where
  "trackbar_color st =
     (let s' = max (s st) 8;
          lut = build_lut s'
      in if empty_mat (img st) then Inl CvException
         else let result' = remap_red (img st) lut
              in imshow result' (st\<lparr>s := s', result := result'\<rparr>))"

section \<open>The vignette filter\<close>

text \<open>
  The line \<open>radius = static_cast<int>(std::min(img.cols, img.rows) * (radius/200.0))\<close>
  truncates a \<open>double\<close> product that is often a whole number in exact arithmetic, so
  the rounding of the two \<open>double\<close> operations decides the result. A finite \<open>double\<close>
  is a real with a 53-bit significand; \<open>round_double\<close> rounds a real to the nearest
  such value, a tie to the even significand (exponent range aside: the operands here
  are integers of at most 32 bits and their quotient by 200).
\<close>

definition round_double :: "real \<Rightarrow> real" where
  "round_double x =
     (if x = 0 then 0
      else let u = 2 powr (of_int (\<lfloor>log 2 \<bar>x\<bar>\<rfloor> - 52))
           in of_int (cvRound (x / u)) * u)"

definition ddiv :: "real \<Rightarrow> real \<Rightarrow> real" where
  "ddiv a b = round_double (a / b)"

definition dmul :: "real \<Rightarrow> real \<Rightarrow> real" where
  "dmul a b = round_double (a * b)"

text \<open>
  The mask and the product of \<open>cv::multiply\<close> are stored as \<open>float\<close>: a real with a
  24-bit significand. \<open>round_float\<close> rounds to the nearest such value, a tie to the even
  significand; \<open>fmul\<close> is the product of two \<open>float\<close> values.
\<close>

definition round_float :: "real \<Rightarrow> real" where
  "round_float x =
     (if x = 0 then 0
      else let u = 2 powr (of_int (\<lfloor>log 2 \<bar>x\<bar>\<rfloor> - 23))
           in of_int (cvRound (x / u)) * u)"

definition fmul :: "real \<Rightarrow> real \<Rightarrow> real" where
  "fmul a b = round_float (a * b)"

text \<open>
  \<open>static_cast<int>\<close> of a \<open>double\<close> drops the fraction; it is defined while the
  value fits an \<open>int\<close>, as it does for the positions of the trackbar.
\<close>

definition trunc_cast :: "real \<Rightarrow> int" where
  "trunc_cast v = (if 0 \<le> v then \<lfloor>v\<rfloor> else \<lceil>v\<rceil>)"

text \<open>
  The two assignments to \<open>radius\<close> in \<open>trackbar_halo\<close>, for a picture of \<open>c\<close> columns
  and \<open>r\<close> rows and the value \<open>p\<close> of \<open>radius\<close> on entry.
\<close>

definition pixel_radius :: "nat \<Rightarrow> nat \<Rightarrow> int \<Rightarrow> int" where
  "pixel_radius c r p =
     (let radius1 = trunc_cast (dmul (real_of_int (min (int c) (int r))) (ddiv (real_of_int p) 200))
      in max 1 radius1)"

text \<open>\<open>cv::Mat(size, type, value)\<close>: every pixel is the given value.\<close>

definition Mat_init :: "nat \<Rightarrow> nat \<Rightarrow> 'a \<Rightarrow> 'a Mat" where
  "Mat_init nrows ncols v = replicate nrows (replicate ncols v)"

text \<open>
  \<open>cv::circle\<close> with thickness \<open>-1\<close> paints the filled disc around the centre
  \<open>(cx, cy)\<close>; the pixel \<open>(x, y)\<close> is taken to be painted when its distance from the
  centre is at most the radius.
\<close>

definition in_disc :: "int \<times> int \<Rightarrow> int \<Rightarrow> int \<Rightarrow> int \<Rightarrow> bool" where
  "in_disc c rad x y \<longleftrightarrow> (x - fst c)\<^sup>2 + (y - snd c)\<^sup>2 \<le> rad\<^sup>2"

definition circle_cv :: "'a Mat \<Rightarrow> int \<times> int \<Rightarrow> int \<Rightarrow> 'a \<Rightarrow> 'a Mat" where
  "circle_cv m c rad colour =
     map (\<lambda>(y, row). map (\<lambda>(x, p). if in_disc c rad (int x) (int y) then colour else p)
                          (enumerate 0 row))
         (enumerate 0 m)"

text \<open>
  \<open>cv::blur\<close>: the normalised box filter, anchored at the middle of the kernel, the
  border reflected without repeating the edge pixel (\<open>BORDER_REFLECT_101\<close>), each
  channel on its own. For a \<open>float\<close> plane the filter of the library sums the window
  in \<open>double\<close> (\<open>box_sum\<close>: on the mask, whose entries are 0.5 and 1, every partial
  sum is a multiple of 0.5 and exact), multiplies the sum by the \<open>double\<close>
  \<open>1. / (kw * kh)\<close> and stores the product as a \<open>float\<close>: \<open>box_mean\<close> is the value
  stored at row \<open>y\<close>, column \<open>x\<close>.
\<close>

definition reflect101 :: "int \<Rightarrow> int \<Rightarrow> int" where
  "reflect101 p len =
     (if len = 1 then 0
      else let m = 2 * len - 2; q = p mod m in if q < len then q else m - q)"

definition box_sum :: "real Mat \<Rightarrow> nat \<Rightarrow> nat \<Rightarrow> nat \<Rightarrow> nat \<Rightarrow> real" where
  "box_sum src kw kh y x =
     (\<Sum>dy\<leftarrow>[0..<kh]. \<Sum>dx\<leftarrow>[0..<kw].
        src ! nat (reflect101 (int y + int dy - int (kh div 2)) (int (rows src)))
            ! nat (reflect101 (int x + int dx - int (kw div 2)) (int (cols src))))"

definition box_mean :: "real Mat \<Rightarrow> nat \<Rightarrow> nat \<Rightarrow> nat \<Rightarrow> nat \<Rightarrow> real" where
  "box_mean src kw kh y x =
     round_float (dmul (box_sum src kw kh y x) (ddiv 1 (real (kw * kh))))"

definition blur_plane :: "real Mat \<Rightarrow> nat \<Rightarrow> nat \<Rightarrow> real Mat" where
  "blur_plane src kw kh =
     map (\<lambda>y. map (\<lambda>x. box_mean src kw kh y x) [0..<cols src]) [0..<rows src]"

definition blur_cv :: "real Vec3 Mat \<Rightarrow> nat \<Rightarrow> nat \<Rightarrow> real Vec3 Mat" where
  "blur_cv src kw kh = merge_cv (map (\<lambda>plane. blur_plane plane kw kh) (split_cv src))"

text \<open>
  The mask of \<open>trackbar_halo\<close>, from the construction of \<open>halo\<close> to \<open>cv::blur\<close>, for a
  picture of \<open>nrows\<close> by \<open>ncols\<close> pixels and the pixel radius \<open>rad\<close>.
\<close>

definition halo_mask :: "nat \<Rightarrow> nat \<Rightarrow> int \<Rightarrow> real Vec3 Mat" where
  "halo_mask nrows ncols rad =
     (let halo = Mat_init nrows ncols (0.5, 0.5, 0.5);
          halo = circle_cv halo (int ncols div 2, int nrows div 2) rad (1, 1, 1)
      in blur_cv halo (nat rad) (nat rad))"

definition map3 :: "('a \<Rightarrow> 'b) \<Rightarrow> 'a Vec3 \<Rightarrow> 'b Vec3" where
  "map3 f p = (f (ch0 p), f (ch1 p), f (ch2 p))"

text \<open>
  \<open>convertTo\<close> to 32-bit floating point (exact on a \<open>uchar\<close>) and back: the way back
  rounds with \<open>cvRound\<close> and saturates.
\<close>

definition convertTo_32F :: "uchar Vec3 Mat \<Rightarrow> real Vec3 Mat" where
  "convertTo_32F m = map (map (map3 (\<lambda>v. real (unat v)))) m"

definition saturate_uchar :: "real \<Rightarrow> uchar" where
  "saturate_uchar v = word_of_int (max 0 (min 255 (cvRound v)))"

definition convertTo_8U :: "real Vec3 Mat \<Rightarrow> uchar Vec3 Mat" where
  "convertTo_8U m = map (map (map3 saturate_uchar)) m"

text \<open>
  \<open>cv::multiply\<close>: the \<open>float\<close> product channel by channel; it raises when the sizes
  differ.
\<close>

definition mul3 :: "real Vec3 \<Rightarrow> real Vec3 \<Rightarrow> real Vec3" where
  "mul3 a b = (fmul (ch0 a) (ch0 b), fmul (ch1 a) (ch1 b), fmul (ch2 a) (ch2 b))"

definition multiply_cv :: "real Vec3 Mat \<Rightarrow> real Vec3 Mat \<Rightarrow> error + real Vec3 Mat" where
  "multiply_cv a b =
     (if same_size a b then Inr (map2 (map2 mul3) a b) else Inl CvException)"

text \<open>\<open>trackbar_halo\<close>.\<close>

definition trackbar_halo :: "session \<Rightarrow> error + session" where
  "trackbar_halo st =
     (let result' = (if empty_mat (result st) then img st else result st);
          radius' = pixel_radius (cols (img st)) (rows (img st)) (radius st);
          halo = halo_mask (rows (img st)) (cols (img st)) radius';
          resultf = convertTo_32F result'
      in case multiply_cv resultf halo of
           Inl e \<Rightarrow> Inl e
         | Inr resultf' \<Rightarrow>
             let display' = convertTo_8U resultf'
             in imshow display' (st\<lparr>result := result', radius := radius', display := display'\<rparr>))"

section \<open>The program\<close>

text \<open>
  What the command line gives: a request for help or no file name, arguments that do
  not parse, or a file name with what \<open>cv::imread\<close> decodes from it (the empty matrix
  when the file cannot be read).
\<close>

datatype cmdline = Usage | BadArgs | Picture "uchar Vec3 Mat"

text \<open>
  While \<open>cv::waitKey\<close> blocks, the toolkit delivers the movements of the two
  trackbars: it stores the new position in the variable bound to the trackbar and calls
  the callback.
\<close>

datatype event = is_Color: Color int | is_Halo: Halo int

fun deliver :: "event \<Rightarrow> session \<Rightarrow> error + session" where
  "deliver (Color pos) st = trackbar_color (st\<lparr>s := pos\<rparr>)"
| "deliver (Halo pos) st = trackbar_halo (st\<lparr>radius := pos\<rparr>)"

fun run_events :: "event list \<Rightarrow> session \<Rightarrow> error + session" where
  "run_events [] st = Inr st"
| "run_events (e # es) st =
     (case deliver e st of Inl err \<Rightarrow> Inl err | Inr st' \<Rightarrow> run_events es st')"

text \<open>The exit code of the process and the picture written to \<open>output.jpg\<close>, if any.\<close>

record outcome =
  exit_code :: int
  output_jpg :: "uchar Vec3 Mat option"

text \<open>\<open>cv::imwrite\<close> raises on an empty picture.\<close>

definition imwrite :: "uchar Vec3 Mat \<Rightarrow> error + bool" where
  "imwrite m = (if empty_mat m then Inl CvException else Inr True)"

text \<open>
  The end of the \<open>try\<close> block of \<open>main\<close>, from \<open>cv::waitKey\<close> on. \<open>keys\<close> are the
  keys pressed from then on, as \<open>cv::waitKey\<close> returns them; with no key the call never
  returns (\<open>None\<close>). The code of \<open>q\<close> is 113, that of \<open>s\<close> is 115. After the key \<open>q\<close>
  the block returns 0; otherwise control leaves the block and \<open>main\<close> returns 0.
\<close>

definition key_gate :: "session \<Rightarrow> int list \<Rightarrow> error + outcome option" where
  "key_gate st keys =
     (case keys of
        [] \<Rightarrow> Inr None
      | k # _ \<Rightarrow>
          let response = (word_of_int k :: uchar)
          in if response = 113 then Inr (Some \<lparr>exit_code = 0, output_jpg = None\<rparr>)
             else if response = 115 then
               (case imwrite (display st) of
                  Inl e \<Rightarrow> Inl e
                | Inr _ \<Rightarrow> Inr (Some \<lparr>exit_code = 0, output_jpg = Some (display st)\<rparr>))
             else Inr (Some \<lparr>exit_code = 0, output_jpg = None\<rparr>))"

text \<open>The globals when \<open>main\<close> has decoded the picture.\<close>

definition initial :: "uchar Vec3 Mat \<Rightarrow> session" where
  "initial im = \<lparr>img = im, result = [], display = [], s = 10, radius = 100, shown = []\<rparr>"

text \<open>
  The \<open>try\<close> block of \<open>main\<close>: it throws a string when the picture is empty, and lets
  the exceptions of the toolkit through.
\<close>

definition main_try :: "cmdline \<Rightarrow> event list \<Rightarrow> int list \<Rightarrow> error + outcome option" where
  "main_try cl evs keys =
     (case cl of
        Usage \<Rightarrow> Inr (Some \<lparr>exit_code = 1, output_jpg = None\<rparr>)
      | BadArgs \<Rightarrow> Inr (Some \<lparr>exit_code = 1, output_jpg = None\<rparr>)
      | Picture im \<Rightarrow>
          if empty_mat im then Inl StringError
          else (case imshow im (initial im) of
                  Inl e \<Rightarrow> Inl e
                | Inr st0 \<Rightarrow>
                    (case run_events evs st0 of
                       Inl e \<Rightarrow> Inl e
                     | Inr st \<Rightarrow> key_gate st keys)))"

text \<open>\<open>main\<close>: both handlers print the message and return 1.\<close>

definition main :: "cmdline \<Rightarrow> event list \<Rightarrow> int list \<Rightarrow> outcome option" where
  "main cl evs keys =
     (case main_try cl evs keys of
        Inl StringError \<Rightarrow> Some \<lparr>exit_code = 1, output_jpg = None\<rparr>
      | Inl CvException \<Rightarrow> Some \<lparr>exit_code = 1, output_jpg = None\<rparr>
      | Inr out \<Rightarrow> out)"

section \<open>Notions used in the statements\<close>

text \<open>
  The vignette filter as the specification words it: each channel of each pixel is
  promoted to floating point, multiplied by the same channel of the mask at that pixel
  (the product a \<open>float\<close>), and rounded back to eight bits with saturation.
\<close>

definition VignetteFilter :: "uchar Vec3 Mat \<Rightarrow> real Vec3 Mat \<Rightarrow> uchar Vec3 Mat" where
  "VignetteFilter src halo =
     map2 (map2 (\<lambda>p m.
        (saturate_uchar (round_float (real (unat (ch0 p)) * ch0 m)),
         saturate_uchar (round_float (real (unat (ch1 p)) * ch1 m)),
         saturate_uchar (round_float (real (unat (ch2 p)) * ch2 m))))) src halo"

text \<open>The globals once \<open>main\<close> has shown the decoded picture.\<close>

definition start :: "uchar Vec3 Mat \<Rightarrow> session" where
  "start im = (initial im)\<lparr>shown := im\<rparr>"

text \<open>
  The position of the last movement of the colour trackbar, and the picture that the
  vignette filter is to darken: the colour-filtered picture of that position, or the
  decoded picture when the colour trackbar has not moved.
\<close>

fun last_color :: "event list \<Rightarrow> int option" where
  "last_color [] = None"
| "last_color (Color v # es) = (case last_color es of None \<Rightarrow> Some v | Some w \<Rightarrow> Some w)"
| "last_color (Halo p # es) = last_color es"

definition color_result :: "uchar Vec3 Mat \<Rightarrow> event list \<Rightarrow> uchar Vec3 Mat" where
  "color_result im evs =
     (case last_color evs of None \<Rightarrow> im | Some v \<Rightarrow> remap_red im (build_lut (max v 8)))"

text \<open>What holds of the globals after any events delivered to a decoded picture.\<close>

definition reached :: "uchar Vec3 Mat \<Rightarrow> event list \<Rightarrow> session \<Rightarrow> bool" where
  "reached im evs st \<longleftrightarrow>
     img st = im \<and>
     (if list_all is_Color evs then display st = [] else \<not> empty_mat (display st)) \<and>
     (if evs = [] then result st = [] else result st = color_result im evs)"

text \<open>The logistic function of the specification.\<close>

definition logistic :: "real \<Rightarrow> real" where
  "logistic t = 1 / (1 + exp (- t))"

text \<open>A plane of the given shape whose entries all lie between two bounds.\<close>

definition plane_in :: "real Mat \<Rightarrow> nat \<Rightarrow> nat \<Rightarrow> real \<Rightarrow> real \<Rightarrow> bool" where
  "plane_in pl nr nc lo hi \<longleftrightarrow>
     length pl = nr \<and> (\<forall>row\<in>set pl. length row = nc \<and> (\<forall>v\<in>set row. lo \<le> v \<and> v \<le> hi))"

section \<open>Properties of the colour filter\<close>

lemma merge_split_row:
  "merge_row (map ch0 r) (map ch1 r) (map f r) = map (\<lambda>p. (ch0 p, ch1 p, f p)) r"
  by (induction r) (simp_all add: merge_row_def)

lemma remap_red_eq:
  "remap_red im lut = map (map (\<lambda>p. (ch0 p, ch1 p, lut ! unat (ch2 p)))) im"
proof -
  have "map (\<lambda>(b, g, r). merge_row b g r)
          (zip (map (map ch0) m) (zip (map (map ch1) m) (map (map (\<lambda>v. lut ! unat v)) (map (map ch2) m))))
        = map (map (\<lambda>p. (ch0 p, ch1 p, lut ! unat (ch2 p)))) m" for m :: "uchar Vec3 Mat"
  proof (induction m)
    case Nil
    show ?case by simp
  next
    case (Cons r m)
    have "merge_row (map ch0 r) (map ch1 r) (map (\<lambda>v. lut ! unat v) (map ch2 r))
          = map (\<lambda>p. (ch0 p, ch1 p, lut ! unat (ch2 p))) r"
      using merge_split_row [of r "\<lambda>p. lut ! unat (ch2 p)"] by (simp add: comp_def)
    with Cons show ?case by simp
  qed
  then show ?thesis
    by (simp add: remap_red_def split_cv_def merge_cv_def LUT_cv_def Let_def)
qed

lemma same_size_remap_red: "same_size (remap_red im lut) im"
  by (simp add: remap_red_eq same_size_def comp_def)

lemma rows_remap_red: "rows (remap_red im lut) = rows im"
  by (simp add: remap_red_eq rows_def)

lemma cols_remap_red: "cols (remap_red im lut) = cols im"
  by (cases im) (simp_all add: remap_red_eq cols_def)

lemma empty_remap_red: "empty_mat (remap_red im lut) = empty_mat im"
  by (simp add: empty_mat_def rows_remap_red cols_remap_red)

lemma trackbar_color_ok:
  "\<not> empty_mat (img st) \<Longrightarrow>
   trackbar_color st =
     Inr (st\<lparr>s := max (s st) 8, result := remap_red (img st) (build_lut (max (s st) 8)),
             shown := remap_red (img st) (build_lut (max (s st) 8))\<rparr>)"
  by (simp add: trackbar_color_def Let_def imshow_def empty_remap_red)

section \<open>Sizes\<close>

lemma map_const_replicate: "\<forall>x\<in>set xs. f x = c \<Longrightarrow> map f xs = replicate (length xs) c"
  by (induction xs) simp_all

lemma rect_map_length: "rect m \<Longrightarrow> map length m = replicate (rows m) (cols m)"
  by (simp add: rect_def rows_def list_all_iff map_const_replicate)

lemma zip3_map: "zip (map f xs) (zip (map g xs) (map h xs)) = map (\<lambda>x. (f x, g x, h x)) xs"
  by (induction xs) auto

lemma merge_cv_planes:
  "merge_cv [map (\<lambda>y. map (f y) xs) ys, map (\<lambda>y. map (g y) xs) ys, map (\<lambda>y. map (h y) xs) ys]
   = map (\<lambda>y. map (\<lambda>x. (f y x, g y x, h y x)) xs) ys"
  by (simp add: merge_cv_def merge_row_def zip3_map)

lemma rows_map_map [simp]: "rows (map (map f) m) = rows m"
  by (simp add: rows_def)

lemma cols_map_map [simp]: "cols (map (map f) m) = cols m"
  by (cases m) (simp_all add: cols_def)

lemma blur_cv_eq:
  "blur_cv src kw kh =
     map (\<lambda>y. map (\<lambda>x. (box_mean (map (map ch0) src) kw kh y x,
                           box_mean (map (map ch1) src) kw kh y x,
                           box_mean (map (map ch2) src) kw kh y x)) [0..<cols src]) [0..<rows src]"
  by (simp add: blur_cv_def split_cv_def blur_plane_def merge_cv_planes)

lemma map_length_blur_cv: "map length (blur_cv src kw kh) = replicate (rows src) (cols src)"
  by (simp add: blur_cv_eq comp_def map_replicate_const)

lemma rows_circle [simp]: "rows (circle_cv m c r v) = rows m"
  by (simp add: circle_cv_def rows_def)

lemma map_snd_enumerate_f: "map (\<lambda>p. f (snd p)) (enumerate n xs) = map f xs"
  by (induction xs arbitrary: n) simp_all

lemma map_length_circle: "map length (circle_cv m c r v) = map length m"
  by (simp add: circle_cv_def comp_def split_def map_snd_enumerate_f)

lemma cols_eq_hd_map_length: "cols m = (case map length m of [] \<Rightarrow> 0 | n # _ \<Rightarrow> n)"
  by (cases m) (simp_all add: cols_def)

lemma cols_circle [simp]: "cols (circle_cv m c r v) = cols m"
  by (simp add: cols_eq_hd_map_length map_length_circle)

lemma rows_Mat_init [simp]: "rows (Mat_init nr nc v) = nr"
  by (simp add: Mat_init_def rows_def)

lemma cols_Mat_init [simp]: "0 < nr \<Longrightarrow> cols (Mat_init nr nc v) = nc"
  by (cases nr) (simp_all add: Mat_init_def cols_def)

lemma map_length_halo_mask:
  "0 < nr \<Longrightarrow> map length (halo_mask nr nc rad) = replicate nr nc"
  by (simp add: halo_mask_def map_length_blur_cv)

lemma same_size_halo:
  assumes "rect im" "\<not> empty_mat im" "same_size src im"
  shows "same_size (convertTo_32F src) (halo_mask (rows im) (cols im) rad)"
  using assms
  by (simp add: same_size_def convertTo_32F_def comp_def map_length_halo_mask rect_map_length empty_mat_def)

section \<open>The callback of the vignette filter\<close>

lemma map_map2_map: "map f (map2 g (map h xs) ys) = map2 (\<lambda>a b. f (g (h a) b)) xs ys"
  by (induction xs arbitrary: ys) (auto split: list.splits simp: zip_Cons1)

lemma convert_multiply_convert:
  "convertTo_8U (map2 (map2 mul3) (convertTo_32F src) halo) = VignetteFilter src halo"
proof -
  have "map (map f) (map2 (map2 g) (map (map h) a) b) = map2 (map2 (\<lambda>p m. f (g (h p) m))) a b"
    for f :: "real Vec3 \<Rightarrow> uchar Vec3" and g h and a :: "uchar Vec3 Mat" and b :: "real Vec3 Mat"
    by (simp only: map_map2_map)
  then have "convertTo_8U (map2 (map2 mul3) (convertTo_32F src) halo)
      = map2 (map2 (\<lambda>p m. map3 saturate_uchar (mul3 (map3 (\<lambda>v. real (unat v)) p) m))) src halo"
    unfolding convertTo_8U_def convertTo_32F_def by (rule trans) (rule refl)
  also have "(\<lambda>p m. map3 saturate_uchar (mul3 (map3 (\<lambda>v. real (unat v)) p) m))
      = (\<lambda>p m. (saturate_uchar (round_float (real (unat (ch0 p)) * ch0 m)),
                  saturate_uchar (round_float (real (unat (ch1 p)) * ch1 m)),
                  saturate_uchar (round_float (real (unat (ch2 p)) * ch2 m))))"
    by (simp add: map3_def mul3_def fmul_def ch0_def ch1_def ch2_def del: of_nat_unat)
  finally show ?thesis by (simp only: VignetteFilter_def)
qed

lemma same_size_refl [simp]: "same_size a a"
  by (simp add: same_size_def)

lemma same_size_rows: "same_size a b \<Longrightarrow> rows a = rows b"
  unfolding same_size_def rows_def by (metis length_map)

lemma same_size_cols: "same_size a b \<Longrightarrow> cols a = cols b"
  unfolding same_size_def by (simp add: cols_eq_hd_map_length)

lemma same_size_empty: "same_size a b \<Longrightarrow> empty_mat a = empty_mat b"
  by (simp add: empty_mat_def same_size_rows same_size_cols)

lemma map_length_map2: "map length a = map length b \<Longrightarrow> map length (map2 (map2 f) a b) = map length a"
proof (induction a arbitrary: b)
  case Nil
  then show ?case by simp
next
  case (Cons r a)
  then obtain r' b' where b: "b = r' # b'" by (cases b) auto
  with Cons show ?case by simp
qed

lemma same_size_VignetteFilter: "same_size (src :: uchar Vec3 Mat) (halo :: real Vec3 Mat) \<Longrightarrow> same_size (VignetteFilter src halo) src"
  unfolding same_size_def VignetteFilter_def by (rule map_length_map2)

lemma same_size_convertTo_32F: "same_size (convertTo_32F a) b = same_size a b"
  by (simp add: same_size_def convertTo_32F_def comp_def)

lemma same_size_mask:
  assumes "rect im" "\<not> empty_mat im" "same_size src im"
  shows "same_size (src :: uchar Vec3 Mat) (halo_mask (rows im) (cols im) rad)"
  using same_size_halo [OF assms] by (simp add: same_size_convertTo_32F)

lemma trackbar_halo_ok:
  assumes "\<not> empty_mat (img st)" "rect (img st)"
    and "empty_mat (result st) \<or> same_size (result st) (img st)"
  shows "trackbar_halo st =
     Inr (st\<lparr>result := (if empty_mat (result st) then img st else result st),
             radius := pixel_radius (cols (img st)) (rows (img st)) (radius st),
             display := VignetteFilter (if empty_mat (result st) then img st else result st)
                          (halo_mask (rows (img st)) (cols (img st))
                             (pixel_radius (cols (img st)) (rows (img st)) (radius st))),
             shown := VignetteFilter (if empty_mat (result st) then img st else result st)
                          (halo_mask (rows (img st)) (cols (img st))
                             (pixel_radius (cols (img st)) (rows (img st)) (radius st)))\<rparr>)"
proof -
  let ?R = "if empty_mat (result st) then img st else result st"
  let ?P = "pixel_radius (cols (img st)) (rows (img st)) (radius st)"
  let ?H = "halo_mask (rows (img st)) (cols (img st)) ?P"
  have R: "same_size ?R (img st)" using assms(3) by auto
  have RH: "same_size ?R ?H" by (rule same_size_mask [OF assms(2) assms(1) R])
  then have m: "multiply_cv (convertTo_32F ?R) ?H = Inr (map2 (map2 mul3) (convertTo_32F ?R) ?H)"
    by (simp add: multiply_cv_def same_size_convertTo_32F)
  have "same_size (VignetteFilter ?R ?H) (img st)"
    using same_size_VignetteFilter [OF RH] R by (simp add: same_size_def)
  then have ne: "\<not> empty_mat (VignetteFilter ?R ?H)"
    using assms(1) by (simp add: same_size_empty)
  show ?thesis
    unfolding trackbar_halo_def Let_def m
    by (simp add: convert_multiply_convert imshow_def ne)
qed

text \<open>
  The callback called again with the same position stored in \<open>radius\<close> leaves the
  globals as the first call left them.
\<close>

lemma trackbar_halo_again:
  assumes "\<not> empty_mat (img st)" "rect (img st)"
    and "empty_mat (result st) \<or> same_size (result st) (img st)"
  shows "\<exists>st1. trackbar_halo (st\<lparr>radius := p\<rparr>) = Inr st1
           \<and> trackbar_halo (st1\<lparr>radius := p\<rparr>) = Inr st1
           \<and> radius st1 = pixel_radius (cols (img st)) (rows (img st)) p"
proof -
  let ?R = "if empty_mat (result st) then img st else result st"
  let ?P = "pixel_radius (cols (img st)) (rows (img st)) p"
  let ?D = "VignetteFilter ?R (halo_mask (rows (img st)) (cols (img st)) ?P)"
  let ?st1 = "st\<lparr>radius := p, result := ?R, radius := ?P, display := ?D, shown := ?D\<rparr>"
  have a: "\<not> empty_mat (img (st\<lparr>radius := p\<rparr>))" "rect (img (st\<lparr>radius := p\<rparr>))"
    "empty_mat (result (st\<lparr>radius := p\<rparr>))
     \<or> same_size (result (st\<lparr>radius := p\<rparr>)) (img (st\<lparr>radius := p\<rparr>))"
    using assms by simp_all
  have one: "trackbar_halo (st\<lparr>radius := p\<rparr>) = Inr ?st1"
    using trackbar_halo_ok [OF a] by simp
  have R: "same_size ?R (img st)" using assms(3) by auto
  have ne: "\<not> empty_mat ?R" using same_size_empty [OF R] assms(1) by simp
  have b: "\<not> empty_mat (img (?st1\<lparr>radius := p\<rparr>))" "rect (img (?st1\<lparr>radius := p\<rparr>))"
    "empty_mat (result (?st1\<lparr>radius := p\<rparr>))
     \<or> same_size (result (?st1\<lparr>radius := p\<rparr>)) (img (?st1\<lparr>radius := p\<rparr>))"
    using assms(1,2) R by simp_all
  have two: "trackbar_halo (?st1\<lparr>radius := p\<rparr>) = Inr ?st1"
    using trackbar_halo_ok [OF b] ne by simp
  from one two show ?thesis by (intro exI [of _ ?st1]) simp
qed

section \<open>The session invariant\<close>

lemma remap_red_pixel:
  assumes "y < rows im" "x < length (im ! y)"
  shows "remap_red im lut ! y ! x
         = (ch0 (im ! y ! x), ch1 (im ! y ! x), lut ! unat (ch2 (im ! y ! x)))"
  using assms by (simp add: remap_red_eq rows_def)

lemma length_build_lut: "length (build_lut sv) = 256"
  by (simp add: build_lut_def)

lemma ch_simps [simp]: "ch0 (a, b, c) = a" "ch1 (a, b, c) = b" "ch2 (a, b, c) = c"
  by (simp_all add: ch0_def ch1_def ch2_def)

lemma run_events_append:
  "run_events (xs @ ys) st = (case run_events xs st of Inl e \<Rightarrow> Inl e | Inr st' \<Rightarrow> run_events ys st')"
  by (induction xs arbitrary: st) (auto split: sum.splits)

lemma last_color_snoc_Color [simp]: "last_color (evs @ [Color v]) = Some v"
  by (induction evs rule: last_color.induct) simp_all

lemma last_color_snoc_Halo [simp]: "last_color (evs @ [Halo p]) = last_color evs"
  by (induction evs rule: last_color.induct) simp_all

lemma last_color_append:
  "last_color (xs @ ys) = (case last_color ys of None \<Rightarrow> last_color xs | Some w \<Rightarrow> Some w)"
proof (induction xs)
  case Nil
  show ?case by (simp split: option.splits)
next
  case (Cons e xs)
  then show ?case by (cases e) (simp_all split: option.splits)
qed

lemma last_color_halos: "list_all is_Halo hs \<Longrightarrow> last_color hs = None"
proof (induction hs)
  case Nil
  show ?case by simp
next
  case (Cons e hs)
  then show ?case by (cases e) simp_all
qed

lemma color_result_halos:
  "list_all is_Halo hs \<Longrightarrow> color_result im (evs @ hs) = color_result im evs"
  by (simp add: color_result_def last_color_append last_color_halos)

lemma empty_mat_Nil [simp]: "empty_mat []"
  by (simp add: empty_mat_def rows_def)

lemma empty_color_result: "empty_mat (color_result im evs) = empty_mat im"
  by (simp add: color_result_def empty_remap_red split: option.splits)

lemma same_size_color_result: "same_size (color_result im evs) im"
  by (simp add: color_result_def same_size_remap_red split: option.splits)

lemma deliver_reached:
  assumes ne: "\<not> empty_mat im" and r: "rect im" and st: "reached im evs st"
  shows "\<exists>st'. deliver e st = Inr st' \<and> reached im (evs @ [e]) st'"
proof (cases e)
  case (Color v)
  have "img (st\<lparr>s := v\<rparr>) = im" using st by (simp add: reached_def)
  with ne have "trackbar_color (st\<lparr>s := v\<rparr>) =
     Inr (st\<lparr>s := max v 8, result := remap_red im (build_lut (max v 8)),
             shown := remap_red im (build_lut (max v 8))\<rparr>)"
    using trackbar_color_ok [of "st\<lparr>s := v\<rparr>"] by simp
  with st Color show ?thesis
    by (simp add: reached_def color_result_def)
next
  case (Halo p)
  let ?st = "st\<lparr>radius := p\<rparr>"
  have i: "img ?st = im" using st by (simp add: reached_def)
  have rs: "empty_mat (result ?st) \<or> same_size (result ?st) (img ?st)"
    using st i by (auto simp: reached_def same_size_color_result split: if_splits)
  have R: "(if empty_mat (result ?st) then img ?st else result ?st) = color_result im (evs @ [Halo p])"
    using st ne by (auto simp: reached_def color_result_def empty_remap_red split: if_splits option.splits)
  have ok: "trackbar_halo ?st = Inr (?st\<lparr>result := color_result im (evs @ [Halo p]),
             radius := pixel_radius (cols im) (rows im) p,
             display := VignetteFilter (color_result im (evs @ [Halo p]))
                          (halo_mask (rows im) (cols im) (pixel_radius (cols im) (rows im) p)),
             shown := VignetteFilter (color_result im (evs @ [Halo p]))
                          (halo_mask (rows im) (cols im) (pixel_radius (cols im) (rows im) p))\<rparr>)"
  proof -
    have ne': "\<not> empty_mat (img ?st)" and r': "rect (img ?st)" using ne r i by simp_all
    note ok0 = trackbar_halo_ok [OF ne' r' rs, unfolded R]
    have im: "img st = im" using i by simp
    show ?thesis using ok0 by (simp add: im)
  qed
  have "same_size (VignetteFilter (color_result im (evs @ [Halo p]))
                          (halo_mask (rows im) (cols im) (pixel_radius (cols im) (rows im) p))) (color_result im (evs @ [Halo p]))"
    by (rule same_size_VignetteFilter) (rule same_size_mask [OF r ne same_size_color_result])
  then have "\<not> empty_mat (VignetteFilter (color_result im (evs @ [Halo p]))
                          (halo_mask (rows im) (cols im) (pixel_radius (cols im) (rows im) p)))"
    using ne by (simp add: same_size_empty empty_color_result)
  with ok st Halo show ?thesis
    by (simp add: reached_def)
qed

lemma run_events_reached:
  assumes ne: "\<not> empty_mat im" and r: "rect im"
  shows "\<exists>st. run_events evs (start im) = Inr st \<and> reached im evs st"
proof (induction evs rule: rev_induct)
  case Nil
  show ?case by (simp add: reached_def start_def initial_def)
next
  case (snoc e evs)
  then obtain st where st: "run_events evs (start im) = Inr st" "reached im evs st" by blast
  from deliver_reached [OF ne r st(2), of e] obtain st' where
    "deliver e st = Inr st'" "reached im (evs @ [e]) st'" by blast
  with st show ?case by (simp add: run_events_append)
qed

section \<open>Rounding\<close>

lemma cvRound_of_int [simp]: "cvRound (of_int j) = j"
  by (simp add: cvRound_def)

lemma cvRound_error: "\<bar>of_int (cvRound y) - y\<bar> \<le> 1 / 2"
  unfolding cvRound_def Let_def by (auto simp: abs_if) linarith+

lemma cvRound_le_int: "y \<le> of_int n \<Longrightarrow> cvRound y \<le> n"
proof -
  assume y: "y \<le> of_int n"
  then have f: "\<lfloor>y\<rfloor> \<le> n" by (simp add: floor_le_iff)
  show ?thesis
  proof (cases "\<lfloor>y\<rfloor> = n")
    case True
    then have "y = of_int n" using y by linarith
    then show ?thesis by simp
  next
    case False
    with f have "\<lfloor>y\<rfloor> + 1 \<le> n" by simp
    then show ?thesis unfolding cvRound_def Let_def by (auto)
  qed
qed

lemma cvRound_ge_int: "of_int n \<le> y \<Longrightarrow> n \<le> cvRound y"
proof -
  assume "of_int n \<le> y"
  then have "n \<le> \<lfloor>y\<rfloor>" by (simp add: le_floor_iff)
  then show ?thesis unfolding cvRound_def Let_def by auto
qed

lemma round_double_error:
  assumes "x \<noteq> 0"
  shows "\<bar>round_double x - x\<bar> \<le> \<bar>x\<bar> / 2 ^ 53"
proof -
  define e where "e = \<lfloor>log 2 \<bar>x\<bar>\<rfloor>"
  define u :: real where "u = 2 powr (of_int (e - 52))"
  have u0: "0 < u" by (simp add: u_def)
  have rd: "round_double x = of_int (cvRound (x / u)) * u"
    using assms by (simp add: round_double_def Let_def u_def e_def)
  have "round_double x - x = (of_int (cvRound (x / u)) - x / u) * u"
    using u0 by (simp add: rd left_diff_distrib)
  then have "\<bar>round_double x - x\<bar> = \<bar>of_int (cvRound (x / u)) - x / u\<bar> * u"
    using u0 by (simp add: abs_mult)
  also have "\<dots> \<le> 1 / 2 * u"
    using cvRound_error [of "x / u"] u0 by (intro mult_right_mono) simp_all
  also have "\<dots> = 2 powr (of_int e) / 2 ^ 53"
    by (simp add: u_def powr_diff)
  also have "\<dots> \<le> \<bar>x\<bar> / 2 ^ 53"
  proof -
    have "of_int e \<le> log 2 \<bar>x\<bar>" by (simp add: e_def)
    then have "2 powr (of_int e) \<le> 2 powr (log 2 \<bar>x\<bar>)" by simp
    also have "\<dots> = \<bar>x\<bar>" using assms by simp
    finally show ?thesis by (simp add: divide_right_mono)
  qed
  finally show ?thesis .
qed

lemma round_double_exact:
  assumes "\<bar>k\<bar> < 2 ^ 53"
  shows "round_double (of_int k / 2 ^ n) = of_int k / 2 ^ n"
proof (cases "k = 0")
  case True
  then show ?thesis by (simp add: round_double_def)
next
  case False
  define x :: real where "x = of_int k / 2 ^ n"
  define e where "e = \<lfloor>log 2 \<bar>x\<bar>\<rfloor>"
  define u :: real where "u = 2 powr (of_int (e - 52))"
  have x0: "x \<noteq> 0" using False by (simp add: x_def)
  have u0: "0 < u" by (simp add: u_def)
  have "\<bar>x\<bar> < 2 ^ 53 / 2 ^ n"
  proof -
    have "\<bar>real_of_int k\<bar> < 2 ^ 53" using assms by (metis of_int_abs of_int_less_numeral_power_cancel_iff)
    then show ?thesis by (simp add: x_def divide_strict_right_mono abs_divide)
  qed
  also have "\<dots> = 2 powr (53 - real n)"
    by (simp add: powr_diff powr_realpow)
  finally have "log 2 \<bar>x\<bar> < 53 - real n"
    using x0 by (simp add: log_less_iff)
  then have "e < 53 - int n" unfolding e_def by linarith
  then have d: "0 \<le> 52 - e - int n" by simp
  define d where "d = nat (52 - e - int n)"
  have "2 powr (of_int (52 - e - int n)) * (2 ^ n * u) = 2 powr (of_int (52 - e - int n) + (real n + of_int (e - 52)))"
    unfolding u_def powr_add by (simp add: powr_realpow)
  also have "\<dots> = 1" by simp
  finally have "2 powr (of_int (52 - e - int n)) = 1 / (2 ^ n * u)"
    using u0 by (simp add: field_simps)
  then have "x / u = of_int k * 2 powr (of_int (52 - e - int n))"
    by (simp add: x_def)
  also have "2 powr (of_int (52 - e - int n)) = (2::real) ^ d"
    unfolding d_def using d by (subst powr_real_of_int) simp_all
  finally have "x / u = of_int (k * 2 ^ d)" by simp
  then have "of_int (cvRound (x / u)) * u = x / u * u" by (simp only: cvRound_of_int)
  also have "\<dots> = x" using u0 by simp
  finally show ?thesis
    using x0 by (simp add: round_double_def Let_def u_def e_def x_def)
qed

lemma round_double_error': "\<bar>round_double x - x\<bar> \<le> \<bar>x\<bar> / 2 ^ 53"
proof (cases "x = 0")
  case True
  then show ?thesis by (simp add: round_double_def)
next
  case False
  then show ?thesis by (rule round_double_error)
qed

text \<open>The double product of the radius line is within three half-ulps of the exact product.\<close>

lemma radius_product_error:
  fixes m p :: int
  assumes "0 \<le> m" "0 \<le> p"
  shows "\<bar>dmul (real_of_int m) (ddiv (real_of_int p) 200) - real_of_int (m * p) / 200\<bar>
         \<le> 3 * (real_of_int (m * p) / 200) / 2 ^ 53"
proof -
  define E where "E = real_of_int (m * p) / 200"
  define q where "q = ddiv (real_of_int p) 200"
  define z where "z = dmul (real_of_int m) q"
  have E0: "0 \<le> E" using assms by (simp add: E_def)
  have "\<bar>q - real_of_int p / 200\<bar> \<le> \<bar>real_of_int p / 200\<bar> / 2 ^ 53"
    unfolding q_def ddiv_def by (rule round_double_error')
  then have q: "\<bar>q - real_of_int p / 200\<bar> \<le> real_of_int p / 200 / 2 ^ 53"
    using assms by simp
  have "real_of_int m * q - E = real_of_int m * (q - real_of_int p / 200)"
    by (simp add: E_def right_diff_distrib)
  then have "\<bar>real_of_int m * q - E\<bar> = real_of_int m * \<bar>q - real_of_int p / 200\<bar>"
    using assms by (simp add: abs_mult)
  also have "\<dots> \<le> real_of_int m * (real_of_int p / 200 / 2 ^ 53)"
    using q assms by (intro mult_left_mono) simp_all
  also have "\<dots> = E / 2 ^ 53" by (simp add: E_def)
  finally have mq: "\<bar>real_of_int m * q - E\<bar> \<le> E / 2 ^ 53" .
  then have mq_le: "\<bar>real_of_int m * q\<bar> \<le> E + E / 2 ^ 53" using E0 by linarith
  have "\<bar>z - real_of_int m * q\<bar> \<le> \<bar>real_of_int m * q\<bar> / 2 ^ 53"
    unfolding z_def dmul_def by (rule round_double_error')
  also have "\<dots> \<le> (E + E / 2 ^ 53) / 2 ^ 53"
    using mq_le by (simp add: divide_right_mono)
  also have "\<dots> \<le> 2 * E / 2 ^ 53"
    using E0 by (simp add: field_simps)
  finally have "\<bar>z - real_of_int m * q\<bar> \<le> 2 * E / 2 ^ 53" .
  with mq have "\<bar>z - E\<bar> \<le> 3 * E / 2 ^ 53" by linarith
  then show ?thesis by (simp only: z_def q_def E_def)
qed

lemma pixel_radius_ge_1: "1 \<le> pixel_radius c r p"
  by (simp add: pixel_radius_def)

lemma pixel_radius_near_exact:
  assumes "c < 2 ^ 31" and "r < 2 ^ 31" and "0 \<le> p" and "p \<le> 100"
  shows "max 1 (int (min c r) * p div 200 - 1) \<le> pixel_radius c r p
       \<and> pixel_radius c r p \<le> max 1 (int (min c r) * p div 200)"
proof -
  define m where "m = min (int c) (int r)"
  define N where "N = m * p"
  define E where "E = real_of_int (m * p) / 200"
  define z where "z = dmul (real_of_int m) (ddiv (real_of_int p) 200)"
  have m: "0 \<le> m" "m < 2 ^ 31" using assms(1,2) by (auto simp: m_def min_def)
  have err: "\<bar>z - E\<bar> \<le> 3 * E / 2 ^ 53"
    unfolding z_def E_def by (rule radius_product_error [OF m(1) assms(3)])
  have N0: "0 \<le> N" using m assms by (simp add: N_def)
  have "m * p \<le> 2 ^ 31 * 100" using m assms(3,4) by (intro mult_mono) simp_all
  then have "real_of_int (m * p) \<le> real_of_int (2 ^ 31 * 100)" by (simp only: of_int_le_iff)
  then have Eb: "E \<le> 2 ^ 30" by (simp add: E_def)
  have E0: "0 \<le> E" using m assms by (simp add: E_def)
  have d: "3 * E / 2 ^ 53 < 1 / 200" using Eb by simp
  have ND: "N = 200 * (N div 200) + N mod 200" by simp
  have "N mod 200 \<le> 199" using pos_mod_bound [of 200 N] by simp
  have Elo: "real_of_int (N div 200) \<le> E"
  proof -
    have "200 * (N div 200) \<le> N" by (simp add: minus_mod_eq_mult_div [symmetric])
    then have "real_of_int (200 * (N div 200)) \<le> real_of_int N" by (simp only: of_int_le_iff)
    then show ?thesis by (simp add: E_def N_def)
  qed
  have Ehi: "E \<le> real_of_int (N div 200) + 199 / 200"
  proof -
    have "N \<le> 200 * (N div 200) + 199" using ND \<open>N mod 200 \<le> 199\<close> by linarith
    then have "real_of_int N \<le> real_of_int (200 * (N div 200) + 199)" by (simp only: of_int_le_iff)
    then show ?thesis by (simp add: E_def N_def)
  qed
  have "z < real_of_int (N div 200) + 1" using err d Ehi by linarith
  then have "z < real_of_int (N div 200 + 1)" by simp
  then have "\<lfloor>z\<rfloor> < N div 200 + 1" by (simp only: floor_less_iff)
  then have up: "\<lfloor>z\<rfloor> \<le> N div 200" by simp
  have "real_of_int (N div 200) - 1 \<le> z" using err d Elo by linarith
  then have "real_of_int (N div 200 - 1) \<le> z" by simp
  then have lo: "N div 200 - 1 \<le> \<lfloor>z\<rfloor>" by (simp only: le_floor_iff)
  have tz: "z < 0 \<Longrightarrow> \<lceil>z\<rceil> \<le> 0" by (simp add: ceiling_le_iff)
  have tz': "z < 0 \<Longrightarrow> N div 200 - 1 \<le> \<lceil>z\<rceil>" using lo by linarith
  have ND0: "0 \<le> N div 200" using N0 by (simp add: pos_imp_zdiv_nonneg_iff)
  have "N div 200 - 1 \<le> trunc_cast z \<and> trunc_cast z \<le> N div 200"
  proof (cases "0 \<le> z")
    case True
    with up lo show ?thesis by (simp add: trunc_cast_def)
  next
    case False
    then have "z < 0" by simp
    have t: "trunc_cast z = \<lceil>z\<rceil>" using False by (simp add: trunc_cast_def)
    have "\<lceil>z\<rceil> \<le> N div 200" using tz [OF \<open>z < 0\<close>] ND0 by linarith
    with tz' [OF \<open>z < 0\<close>] show ?thesis unfolding t by blast
  qed
  moreover have "int (min c r) = m" by (simp add: m_def)
  ultimately show ?thesis
    unfolding pixel_radius_def Let_def z_def [symmetric] N_def [symmetric] m_def [symmetric]
    by (simp add: N_def) linarith
qed

lemma dyadic: "real_of_int k / 2 ^ n = x \<Longrightarrow> \<bar>k\<bar> < 2 ^ 53 \<Longrightarrow> round_double x = x"
  using round_double_exact [of k n] by simp

lemma round_double_eval:
  assumes "0 < x" "2 powr (of_int e) \<le> x" "x < 2 powr (of_int (e + 1))"
  shows "round_double x = of_int (cvRound (x / 2 powr (of_int (e - 52)))) * 2 powr (of_int (e - 52))"
proof -
  have "\<lfloor>log 2 \<bar>x\<bar>\<rfloor> = e"
    using assms by (simp add: floor_log_eq_powr_iff)
  with assms(1) show ?thesis by (simp add: round_double_def Let_def)
qed

lemma cvRound_eval: "of_int f \<le> v \<Longrightarrow> v < of_int f + 1 / 2 \<Longrightarrow> cvRound v = f"
proof -
  assume a: "of_int f \<le> v" "v < of_int f + 1 / 2"
  then have "\<lfloor>v\<rfloor> = f" by linarith
  with a show ?thesis by (simp add: cvRound_def Let_def)
qed

lemma cvRound_eval_up: "of_int f - 1 / 2 < v \<Longrightarrow> v < of_int f \<Longrightarrow> cvRound v = f"
proof -
  assume a: "of_int f - 1 / 2 < v" "v < of_int f"
  then have "\<lfloor>v\<rfloor> = f - 1" by linarith
  with a show ?thesis by (simp add: cvRound_def Let_def)
qed

lemma round_float_eval:
  assumes "0 < x" "2 powr (of_int e) \<le> x" "x < 2 powr (of_int (e + 1))"
  shows "round_float x = of_int (cvRound (x / 2 powr (of_int (e - 23)))) * 2 powr (of_int (e - 23))"
proof -
  have "\<lfloor>log 2 \<bar>x\<bar>\<rfloor> = e"
    using assms by (simp add: floor_log_eq_powr_iff)
  with assms(1) show ?thesis by (simp add: round_float_def Let_def)
qed

lemma round_float_nonneg: "0 \<le> x \<Longrightarrow> 0 \<le> round_float x"
proof -
  assume x: "0 \<le> x"
  have "0 \<le> of_int (cvRound (x / u)) * u" if "0 < u" for u :: real
  proof -
    have "of_int 0 \<le> x / u" using x that by simp
    then have "0 \<le> cvRound (x / u)" by (rule cvRound_ge_int)
    with that show ?thesis by simp
  qed
  then show ?thesis by (simp add: round_float_def Let_def)
qed

text \<open>Rounding to \<open>float\<close> does not pass an integer that a \<open>float\<close> holds.\<close>

lemma round_float_le_int:
  assumes "x \<le> of_int k" "0 \<le> k" "k < 2 ^ 24"
  shows "round_float x \<le> of_int k"
proof (cases "0 < x")
  case False
  then have x: "x \<le> 0" by simp
  have "of_int (cvRound (x / u)) * u \<le> 0" if "0 < u" for u :: real
  proof -
    have "x / u \<le> of_int 0" using x that by (simp add: divide_nonpos_pos)
    then have "cvRound (x / u) \<le> 0" by (rule cvRound_le_int)
    with that show ?thesis by (simp add: mult_nonpos_nonneg)
  qed
  then have "round_float x \<le> 0" by (simp add: round_float_def Let_def)
  with assms(2) show ?thesis by simp
next
  case True
  define e where "e = \<lfloor>log 2 \<bar>x\<bar>\<rfloor>"
  define u :: real where "u = 2 powr (of_int (e - 23))"
  have u0: "0 < u" by (simp add: u_def)
  have "real_of_int k < 2 ^ 24" using assms(3) by (metis of_int_less_numeral_power_cancel_iff)
  with assms(1) have "x < 2 powr 24" by simp
  then have "log 2 \<bar>x\<bar> < 24" using True by (simp add: log_less_iff)
  then have "e < 24" unfolding e_def by linarith
  then have d: "0 \<le> 23 - e" by simp
  define d where "d = nat (23 - e)"
  have "2 powr (of_int (23 - e)) * u = 2 powr (of_int (23 - e) + of_int (e - 23))"
    unfolding u_def powr_add by simp
  also have "\<dots> = 1" by simp
  finally have "1 / u = 2 powr (of_int (23 - e))" using u0 by (simp add: field_simps)
  also have "\<dots> = (2::real) ^ d"
    unfolding d_def using d by (subst powr_real_of_int) simp_all
  finally have iu: "1 / u = 2 ^ d" .
  have "x / u \<le> of_int k / u" using assms(1) u0 by (simp add: divide_right_mono)
  also have "\<dots> = of_int k * (1 / u)" by simp
  also have "\<dots> = of_int (k * 2 ^ d)" unfolding iu by simp
  finally have "cvRound (x / u) \<le> k * 2 ^ d" by (rule cvRound_le_int)
  then have "real_of_int (cvRound (x / u)) \<le> real_of_int (k * 2 ^ d)" by (simp only: of_int_le_iff)
  then have "of_int (cvRound (x / u)) * u \<le> of_int (k * 2 ^ d) * u"
    using u0 by (intro mult_right_mono) simp_all
  also have "\<dots> = of_int k * ((1 / u) * u)" unfolding iu by simp
  also have "\<dots> = of_int k" using u0 by simp
  finally show ?thesis
    using True by (simp add: round_float_def Let_def u_def e_def)
qed

lemma round_float_exact:
  assumes "\<bar>k\<bar> < 2 ^ 24"
  shows "round_float (of_int k / 2 ^ n) = of_int k / 2 ^ n"
proof (cases "k = 0")
  case True
  then show ?thesis by (simp add: round_float_def)
next
  case False
  define x :: real where "x = of_int k / 2 ^ n"
  define e where "e = \<lfloor>log 2 \<bar>x\<bar>\<rfloor>"
  define u :: real where "u = 2 powr (of_int (e - 23))"
  have x0: "x \<noteq> 0" using False by (simp add: x_def)
  have u0: "0 < u" by (simp add: u_def)
  have "\<bar>x\<bar> < 2 ^ 24 / 2 ^ n"
  proof -
    have "\<bar>real_of_int k\<bar> < 2 ^ 24" using assms by (metis of_int_abs of_int_less_numeral_power_cancel_iff)
    then show ?thesis by (simp add: x_def divide_strict_right_mono abs_divide)
  qed
  also have "\<dots> = 2 powr (24 - real n)"
    by (simp add: powr_diff powr_realpow)
  finally have "log 2 \<bar>x\<bar> < 24 - real n"
    using x0 by (simp add: log_less_iff)
  then have "e < 24 - int n" unfolding e_def by linarith
  then have d: "0 \<le> 23 - e - int n" by simp
  define d where "d = nat (23 - e - int n)"
  have "2 powr (of_int (23 - e - int n)) * (2 ^ n * u) = 2 powr (of_int (23 - e - int n) + (real n + of_int (e - 23)))"
    unfolding u_def powr_add by (simp add: powr_realpow)
  also have "\<dots> = 1" by simp
  finally have "2 powr (of_int (23 - e - int n)) = 1 / (2 ^ n * u)"
    using u0 by (simp add: field_simps)
  then have "x / u = of_int k * 2 powr (of_int (23 - e - int n))"
    by (simp add: x_def)
  also have "2 powr (of_int (23 - e - int n)) = (2::real) ^ d"
    unfolding d_def using d by (subst powr_real_of_int) simp_all
  finally have "x / u = of_int (k * 2 ^ d)" by simp
  then have "of_int (cvRound (x / u)) * u = x / u * u" by (simp only: cvRound_of_int)
  also have "\<dots> = x" using u0 by simp
  finally show ?thesis
    using x0 by (simp add: round_float_def Let_def u_def e_def x_def)
qed

text \<open>A value just about between 1/2 and 1 is rounded to a \<open>float\<close> between 1/2 and 1.\<close>

lemma round_float_mask:
  assumes "1 / 2 - 1 / 2 ^ 26 < x" "x < 1 + 1 / 2 ^ 24"
  shows "1 / 2 \<le> round_float x \<and> round_float x \<le> 1"
proof -
  have x0: "0 < x" using assms(1) by simp
  consider "1 \<le> x" | "1 / 2 \<le> x" "x < 1" | "x < 1 / 2" by linarith
  then show ?thesis
  proof cases
    case 1
    have r: "round_float x = of_int (cvRound (x / 2 powr (of_int (0 - 23)))) * 2 powr (of_int (0 - 23))"
      using 1 assms(2) by (intro round_float_eval x0) simp_all
    have p: "(2::real) powr (of_int (0 - 23)) = 1 / 2 ^ 23" by (simp add: powr_neg_numeral)
    have "cvRound (x / (1 / 2 ^ 23)) = 2 ^ 23"
      using 1 assms(2) by (intro cvRound_eval) simp_all
    then show ?thesis unfolding r p by simp
  next
    case 2
    have r: "round_float x = of_int (cvRound (x / 2 powr (of_int (- 1 - 23)))) * 2 powr (of_int (- 1 - 23))"
      using 2 by (intro round_float_eval x0) (simp_all add: powr_neg_numeral)
    have p: "(2::real) powr (of_int (- 1 - 23)) = 1 / 2 ^ 24" by (simp add: powr_neg_numeral)
    have a: "of_int (2 ^ 23) \<le> x / (1 / 2 ^ 24)" and b: "x / (1 / 2 ^ 24) \<le> of_int (2 ^ 24)"
      using 2 by simp_all
    have "2 ^ 23 \<le> cvRound (x / (1 / 2 ^ 24))" "cvRound (x / (1 / 2 ^ 24)) \<le> 2 ^ 24"
      using cvRound_ge_int [OF a] cvRound_le_int [OF b] by simp_all
    then have "real_of_int (2 ^ 23) \<le> real_of_int (cvRound (x / (1 / 2 ^ 24)))"
      "real_of_int (cvRound (x / (1 / 2 ^ 24))) \<le> real_of_int (2 ^ 24)"
      by (simp_all only: of_int_le_iff)
    then show ?thesis unfolding r p by simp
  next
    case 3
    have r: "round_float x = of_int (cvRound (x / 2 powr (of_int (- 2 - 23)))) * 2 powr (of_int (- 2 - 23))"
      using 3 assms(1) by (intro round_float_eval x0) (simp_all add: powr_neg_numeral)
    have p: "(2::real) powr (of_int (- 2 - 23)) = 1 / 2 ^ 25" by (simp add: powr_neg_numeral)
    have "of_int (2 ^ 24) - 1 / 2 < x / (1 / 2 ^ 25)" "x / (1 / 2 ^ 25) < of_int (2 ^ 24)"
      using 3 assms(1) by simp_all
    then have "cvRound (x / (1 / 2 ^ 25)) = 2 ^ 24" by (rule cvRound_eval_up)
    then show ?thesis unfolding r p by simp
  qed
qed

lemma ddiv_58: "ddiv (real_of_int 58) 200 = 5224175567749775 / 2 ^ 54"
proof -
  have x: "real_of_int 58 / 200 = 29 / 100" by simp
  have p: "(2::real) powr (of_int (- 2 - 52)) = 1 / 2 ^ 54"
    by (simp add: powr_neg_numeral)
  have c: "cvRound (29 / 100 / (1 / 2 ^ 54)) = 5224175567749775"
    by (rule cvRound_eval) simp_all
  have "round_double (29 / 100) = of_int (cvRound (29 / 100 / 2 powr (of_int (- 2 - 52)))) * 2 powr (of_int (- 2 - 52))"
    by (rule round_double_eval) (simp_all add: powr_neg_numeral)
  then show ?thesis unfolding ddiv_def x p c by simp
qed

lemma dmul_100_58: "dmul (real_of_int 100) (5224175567749775 / 2 ^ 54) = 8162774324609023 / 2 ^ 48"
proof -
  have x: "real_of_int 100 * (5224175567749775 / 2 ^ 54) = 130604389193744375 / 2 ^ 52" by simp
  have p: "(2::real) powr (of_int (4 - 52)) = 1 / 2 ^ 48"
    by (simp add: powr_neg_numeral)
  have c: "cvRound (130604389193744375 / 2 ^ 52 / (1 / 2 ^ 48)) = 8162774324609023"
    by (rule cvRound_eval) simp_all
  have "round_double (130604389193744375 / 2 ^ 52)
        = of_int (cvRound (130604389193744375 / 2 ^ 52 / 2 powr (of_int (4 - 52)))) * 2 powr (of_int (4 - 52))"
    by (rule round_double_eval) (simp_all add: powr_neg_numeral)
  then show ?thesis unfolding dmul_def x p c by simp
qed

lemma pixel_radius_100_58: "pixel_radius 100 100 58 = 28"
proof -
  have m: "real_of_int (min (int 100) (int 100)) = real_of_int 100" by simp
  have "trunc_cast (8162774324609023 / 2 ^ 48) = 28"
    unfolding trunc_cast_def by simp
  then show ?thesis
    unfolding pixel_radius_def Let_def m ddiv_58 dmul_100_58 by simp
qed

section \<open>The mask\<close>

lemma reflect101_range:
  assumes "1 \<le> len"
  shows "0 \<le> reflect101 p len \<and> reflect101 p len < len"
proof (cases "len = 1")
  case True
  then show ?thesis by (simp add: reflect101_def)
next
  case False
  with assms have m: "0 < 2 * len - 2" by simp
  have "0 \<le> p mod (2 * len - 2)" "p mod (2 * len - 2) < 2 * len - 2"
    using m by simp_all
  with False assms show ?thesis
    by (auto simp: reflect101_def Let_def)
qed

lemma sum_list_bounds:
  fixes f :: "'a \<Rightarrow> real"
  assumes "\<And>x. x \<in> set xs \<Longrightarrow> lo \<le> f x \<and> f x \<le> hi"
  shows "real (length xs) * lo \<le> (\<Sum>x\<leftarrow>xs. f x) \<and> (\<Sum>x\<leftarrow>xs. f x) \<le> real (length xs) * hi"
  using assms
proof (induction xs)
  case Nil
  show ?case by simp
next
  case (Cons a xs)
  have a: "lo \<le> f a \<and> f a \<le> hi" using Cons.prems by simp
  have "real (length xs) * lo \<le> (\<Sum>x\<leftarrow>xs. f x) \<and> (\<Sum>x\<leftarrow>xs. f x) \<le> real (length xs) * hi"
    using Cons.IH Cons.prems by simp
  with a show ?case by (simp add: algebra_simps)
qed

lemma plane_in_nth:
  "plane_in pl nr nc lo hi \<Longrightarrow> i < nr \<Longrightarrow> j < nc \<Longrightarrow> lo \<le> pl ! i ! j \<and> pl ! i ! j \<le> hi"
  unfolding plane_in_def by (metis nth_mem)

lemma box_sum_bounds:
  assumes pl: "plane_in pl nr nc lo hi" and "0 < nr" "0 < nc"
  shows "real (kw * kh) * lo \<le> box_sum pl kw kh y x \<and> box_sum pl kw kh y x \<le> real (kw * kh) * hi"
proof -
  have rows: "rows pl = nr" using pl by (simp add: plane_in_def rows_def)
  have cols: "cols pl = nc"
    using pl \<open>0 < nr\<close> by (cases pl) (auto simp: plane_in_def cols_def)
  let ?g = "\<lambda>dy dx. pl ! nat (reflect101 (int y + int dy - int (kh div 2)) (int (rows pl)))
                       ! nat (reflect101 (int x + int dx - int (kw div 2)) (int (cols pl)))"
  have g: "lo \<le> ?g dy dx \<and> ?g dy dx \<le> hi" for dy dx
  proof -
    have "nat (reflect101 (int y + int dy - int (kh div 2)) (int (rows pl))) < nr"
      using reflect101_range [of "int nr" "int y + int dy - int (kh div 2)"] \<open>0 < nr\<close>
      by (auto simp: rows nat_less_iff)
    moreover have "nat (reflect101 (int x + int dx - int (kw div 2)) (int (cols pl))) < nc"
      using reflect101_range [of "int nc" "int x + int dx - int (kw div 2)"] \<open>0 < nc\<close>
      by (auto simp: cols nat_less_iff)
    ultimately show ?thesis by (rule plane_in_nth [OF pl])
  qed
  have inner: "real kw * lo \<le> (\<Sum>dx\<leftarrow>[0..<kw]. ?g dy dx) \<and> (\<Sum>dx\<leftarrow>[0..<kw]. ?g dy dx) \<le> real kw * hi" for dy
    using sum_list_bounds [of "[0..<kw]" lo "?g dy" hi] g by simp
  have outer: "real kh * (real kw * lo) \<le> (\<Sum>dy\<leftarrow>[0..<kh]. \<Sum>dx\<leftarrow>[0..<kw]. ?g dy dx)
             \<and> (\<Sum>dy\<leftarrow>[0..<kh]. \<Sum>dx\<leftarrow>[0..<kw]. ?g dy dx) \<le> real kh * (real kw * hi)"
    using sum_list_bounds [of "[0..<kh]" "real kw * lo" "\<lambda>dy. \<Sum>dx\<leftarrow>[0..<kw]. ?g dy dx" "real kw * hi"] inner
    by simp
  let ?S = "\<Sum>dy\<leftarrow>[0..<kh]. \<Sum>dx\<leftarrow>[0..<kw]. ?g dy dx"
  from outer have "(real kh * real kw) * lo \<le> ?S" "?S \<le> (real kh * real kw) * hi"
    by (simp_all add: mult.assoc)
  then show ?thesis
    unfolding box_sum_def by (simp add: mult.commute)
qed

text \<open>
  On a plane with entries between 0.5 and 1 the stored mean is between 0.5 and 1 too:
  the two roundings in \<open>double\<close> move the exact mean by less than \<open>3 / 2 ^ 53\<close>, and the
  rounding to \<open>float\<close> brings such a value back into the interval.
\<close>

lemma box_mean_bounds:
  assumes pl: "plane_in pl nr nc (1 / 2) 1" and "0 < nr" "0 < nc" "0 < kw" "0 < kh"
  shows "1 / 2 \<le> box_mean pl kw kh y x \<and> box_mean pl kw kh y x \<le> 1"
proof -
  define K where "K = real (kw * kh)"
  define S where "S = box_sum pl kw kh y x"
  define q where "q = ddiv 1 K"
  define r where "r = S / K"
  define z where "z = dmul S q"
  have "1 \<le> kw * kh" using \<open>0 < kw\<close> \<open>0 < kh\<close> by (simp add: Suc_le_eq)
  then have K: "1 \<le> K" unfolding K_def by (simp only: of_nat_1 [symmetric, where 'a = real] of_nat_le_iff)
  from box_sum_bounds [OF pl assms(2,3), of kw kh y x] have S: "K / 2 \<le> S" "S \<le> K"
    by (simp_all add: K_def S_def)
  have q: "\<bar>q - 1 / K\<bar> \<le> (1 / K) / 2 ^ 53"
    using round_double_error' [of "1 / K"] K by (simp add: q_def ddiv_def)
  have r: "1 / 2 \<le> r" "r \<le> 1" using S K by (simp_all add: r_def field_simps)
  have S0: "0 \<le> S" using S K by linarith
  define e :: real where "e = 1 / 2 ^ 53"
  have e: "0 < e" "3 * e < 1 / 2 ^ 26" "3 * e < 1 / 2 ^ 24" "e \<le> 1" by (simp_all add: e_def)
  have "S * q - r = S * (q - 1 / K)" by (simp add: r_def algebra_simps)
  then have "\<bar>S * q - r\<bar> = S * \<bar>q - 1 / K\<bar>" using S0 by (simp add: abs_mult)
  also have "\<dots> \<le> S * ((1 / K) / 2 ^ 53)" using q S0 by (rule mult_left_mono)
  also have "\<dots> = r * e" by (simp add: r_def e_def)
  also have "\<dots> \<le> 1 * e" using r(2) e(1) by (intro mult_right_mono) simp_all
  finally have e1: "\<bar>S * q - r\<bar> \<le> e" by simp
  have "\<bar>z - S * q\<bar> \<le> \<bar>S * q\<bar> / 2 ^ 53"
    unfolding z_def dmul_def by (rule round_double_error')
  then have "\<bar>z - S * q\<bar> \<le> \<bar>S * q\<bar> * e" by (simp add: e_def)
  moreover have "\<bar>S * q\<bar> \<le> 2" using e1 r e(4) by linarith
  then have "\<bar>S * q\<bar> * e \<le> 2 * e" using e(1) by (intro mult_right_mono) simp_all
  ultimately have e2: "\<bar>z - S * q\<bar> \<le> 2 * e" by linarith
  have "1 / 2 - 1 / 2 ^ 26 < z" "z < 1 + 1 / 2 ^ 24"
    using e1 e2 r e(2,3) by linarith+
  then have "1 / 2 \<le> round_float z \<and> round_float z \<le> 1" by (rule round_float_mask)
  then show ?thesis
    by (simp only: box_mean_def z_def q_def K_def S_def)
qed

lemma circle_values:
  "row \<in> set (circle_cv m c rad col) \<Longrightarrow> p \<in> set row \<Longrightarrow> p = col \<or> (\<exists>row0\<in>set m. p \<in> set row0)"
  unfolding circle_cv_def
  by (auto simp: in_set_enumerate_eq split: if_splits) (meson nth_mem)

lemma map_length_replicateD:
  "map length M = replicate nr nc \<Longrightarrow> length M = nr \<and> (\<forall>row\<in>set M. length row = nc)"
proof -
  assume a: "map length M = replicate nr nc"
  then have "length (map length M) = nr" by simp
  moreover have "length row = nc" if "row \<in> set M" for row
  proof -
    from that have "length row \<in> set (map length M)" by simp
    then show ?thesis unfolding a by (simp split: if_splits)
  qed
  ultimately show ?thesis by simp
qed

lemma halo_planes:
  fixes f :: "real Vec3 \<Rightarrow> real"
  assumes "f (1 / 2, 1 / 2, 1 / 2) = 1 / 2" and "f (1, 1, 1) = 1"
  shows "plane_in (map (map f) (circle_cv (Mat_init nr nc (0.5, 0.5, 0.5)) c rad (1, 1, 1))) nr nc (1 / 2) 1"
proof -
  let ?M = "circle_cv (Mat_init nr nc (0.5 :: real, 0.5 :: real, 0.5 :: real)) c rad (1, 1, 1)"
  have "map length ?M = replicate nr nc"
    by (simp add: map_length_circle Mat_init_def)
  from map_length_replicateD [OF this] have len: "length ?M = nr" "\<forall>row\<in>set ?M. length row = nc"
    by simp_all
  have vals: "p = (1, 1, 1) \<or> p = (1 / 2, 1 / 2, 1 / 2)" if "row \<in> set ?M" "p \<in> set row" for row p
    using circle_values [OF that] by (auto simp: Mat_init_def split: if_splits)
  have "1 / 2 \<le> f p \<and> f p \<le> 1" if "row \<in> set ?M" "p \<in> set row" for row p
    using vals [OF that] assms by auto
  with len show ?thesis
    unfolding plane_in_def by auto
qed

lemma halo_mask_nth:
  assumes "0 < nr" "y < nr" "x < nc"
  shows "halo_mask nr nc rad ! y ! x =
     (box_mean (map (map ch0) (circle_cv (Mat_init nr nc (0.5, 0.5, 0.5)) (int nc div 2, int nr div 2) rad (1, 1, 1))) (nat rad) (nat rad) y x,
      box_mean (map (map ch1) (circle_cv (Mat_init nr nc (0.5, 0.5, 0.5)) (int nc div 2, int nr div 2) rad (1, 1, 1))) (nat rad) (nat rad) y x,
      box_mean (map (map ch2) (circle_cv (Mat_init nr nc (0.5, 0.5, 0.5)) (int nc div 2, int nr div 2) rad (1, 1, 1))) (nat rad) (nat rad) y x)"
  using assms by (simp add: halo_mask_def blur_cv_eq Let_def)

lemma halo_mask_range:
  assumes "0 < nr" "y < nr" "x < nc" "1 \<le> rad"
  shows "1 / 2 \<le> ch0 (halo_mask nr nc rad ! y ! x) \<and> ch0 (halo_mask nr nc rad ! y ! x) \<le> 1
       \<and> 1 / 2 \<le> ch1 (halo_mask nr nc rad ! y ! x) \<and> ch1 (halo_mask nr nc rad ! y ! x) \<le> 1
       \<and> 1 / 2 \<le> ch2 (halo_mask nr nc rad ! y ! x) \<and> ch2 (halo_mask nr nc rad ! y ! x) \<le> 1"
proof -
  have nc: "0 < nc" using assms(3) by simp
  have k: "0 < nat rad" using assms(4) by simp
  let ?C = "circle_cv (Mat_init nr nc (0.5 :: real, 0.5 :: real, 0.5 :: real))
              (int nc div 2, int nr div 2) rad (1, 1, 1)"
  have p0: "plane_in (map (map ch0) ?C) nr nc (1 / 2) 1" by (rule halo_planes) simp_all
  have p1: "plane_in (map (map ch1) ?C) nr nc (1 / 2) 1" by (rule halo_planes) simp_all
  have p2: "plane_in (map (map ch2) ?C) nr nc (1 / 2) 1" by (rule halo_planes) simp_all
  show ?thesis
    unfolding halo_mask_nth [OF assms(1-3)] ch_simps
    using box_mean_bounds [OF p0 assms(1) nc k k, of y x]
      box_mean_bounds [OF p1 assms(1) nc k k, of y x]
      box_mean_bounds [OF p2 assms(1) nc k k, of y x]
    by blast
qed

lemma uchar_bound: "int (unat (v :: uchar)) < 256"
  using uint_lt2p [of v] by simp

lemma saturate_uchar_le:
  assumes "0 \<le> h" "h \<le> 1"
  shows "saturate_uchar (round_float (real (unat v) * h)) \<le> v"
proof -
  define n where "n = cvRound (round_float (real (unat v) * h))"
  note v = uchar_bound [of v]
  have "real (unat v) * h \<le> real (unat v) * 1"
    using assms(2) by (intro mult_left_mono of_nat_0_le_iff)
  then have "real (unat v) * h \<le> of_int (int (unat v))" by (simp del: of_nat_unat)
  moreover have "int (unat v) < 2 ^ 24" using v by (simp del: of_nat_unat)
  ultimately have "round_float (real (unat v) * h) \<le> of_int (int (unat v))"
    by (intro round_float_le_int) simp_all
  then have up: "n \<le> int (unat v)" unfolding n_def by (rule cvRound_le_int)
  have "0 \<le> real (unat v) * h" using assms(1) by (intro mult_nonneg_nonneg of_nat_0_le_iff)
  then have "0 \<le> round_float (real (unat v) * h)" by (rule round_float_nonneg)
  then have "of_int 0 \<le> round_float (real (unat v) * h)" by (simp del: of_nat_unat)
  then have lo: "0 \<le> n" unfolding n_def by (rule cvRound_ge_int)
  have "uint (word_of_int n :: uchar) = n"
    using lo up v by (simp add: uint_word_of_int take_bit_eq_mod del: of_nat_unat)
  then have "(word_of_int n :: uchar) \<le> v"
    using up by (simp add: word_le_def)
  moreover have "max 0 (min 255 n) = n" using lo up v by (simp del: of_nat_unat)
  ultimately show ?thesis by (simp add: saturate_uchar_def n_def [symmetric] del: of_nat_unat)
qed

text \<open>A \<open>uchar\<close> is a \<open>float\<close>.\<close>

lemma round_float_uchar: "round_float (real (unat (v :: uchar))) = real (unat v)"
proof -
  have "\<bar>int (unat v)\<bar> < 2 ^ 24" using uchar_bound [of v] by (simp del: of_nat_unat)
  from round_float_exact [OF this, of 0] show ?thesis by (simp del: of_nat_unat)
qed

lemma saturate_uchar_id: "saturate_uchar (real (unat v)) = v"
proof -
  note v = uchar_bound [of v]
  have "cvRound (real (unat v)) = int (unat v)"
    using cvRound_of_int [of "int (unat v)"] by (simp del: of_nat_unat)
  then have "saturate_uchar (real (unat v)) = word_of_int (max 0 (min 255 (int (unat v))))"
    by (simp only: saturate_uchar_def)
  also have "max 0 (min 255 (int (unat v))) = int (unat v)" using v by (simp del: of_nat_unat)
  also have "word_of_int (int (unat v)) = v" by simp
  finally show ?thesis .
qed

lemma VignetteFilter_nth:
  assumes "y < length src" "y < length halo" "x < length (src ! y)" "x < length (halo ! y)"
  shows "VignetteFilter src halo ! y ! x
         = (saturate_uchar (round_float (real (unat (ch0 (src ! y ! x))) * ch0 (halo ! y ! x))),
            saturate_uchar (round_float (real (unat (ch1 (src ! y ! x))) * ch1 (halo ! y ! x))),
            saturate_uchar (round_float (real (unat (ch2 (src ! y ! x))) * ch2 (halo ! y ! x))))"
  using assms by (simp add: VignetteFilter_def del: of_nat_unat)

lemma vignette_pixel:
  assumes "y < length src" "y < length halo" "x < length (src ! y)" "x < length (halo ! y)"
    and "0 \<le> ch0 (halo ! y ! x) \<and> ch0 (halo ! y ! x) \<le> 1"
    and "0 \<le> ch1 (halo ! y ! x) \<and> ch1 (halo ! y ! x) \<le> 1"
    and "0 \<le> ch2 (halo ! y ! x) \<and> ch2 (halo ! y ! x) \<le> 1"
  shows "ch0 (VignetteFilter src halo ! y ! x) \<le> ch0 (src ! y ! x)
       \<and> ch1 (VignetteFilter src halo ! y ! x) \<le> ch1 (src ! y ! x)
       \<and> ch2 (VignetteFilter src halo ! y ! x) \<le> ch2 (src ! y ! x)"
  unfolding VignetteFilter_nth [OF assms(1-4)]
  using assms(5-7) by (simp add: saturate_uchar_le del: of_nat_unat)

lemma vignette_pixel_id:
  assumes "y < length src" "y < length halo" "x < length (src ! y)" "x < length (halo ! y)"
    and "halo ! y ! x = (1, 1, 1)"
  shows "VignetteFilter src halo ! y ! x = src ! y ! x"
  unfolding VignetteFilter_nth [OF assms(1-4)] assms(5)
  by (cases "src ! y ! x") (simp add: round_float_uchar saturate_uchar_id del: of_nat_unat)

lemma rect_Mat_init: "rect (Mat_init nr nc v)"
  by (cases nr) (simp_all add: rect_def Mat_init_def cols_def list_all_iff)

lemma not_empty_Mat_init: "0 < nr \<Longrightarrow> 0 < nc \<Longrightarrow> \<not> empty_mat (Mat_init nr nc v)"
  by (simp add: empty_mat_def)

lemma rect_nth_length:
  assumes "rect im" "same_size R im" "y < rows im"
  shows "y < length R \<and> length (R ! y) = cols im"
proof -
  have "map length R = replicate (rows im) (cols im)"
    using assms(1,2) by (simp add: same_size_def rect_map_length)
  from map_length_replicateD [OF this] assms(3) show ?thesis by simp
qed

lemma halo_mask_nth_length:
  assumes "y < nr"
  shows "y < length (halo_mask nr nc rad) \<and> length (halo_mask nr nc rad ! y) = nc"
proof -
  have "0 < nr" using assms by simp
  from map_length_replicateD [OF map_length_halo_mask [OF this, of nc rad]] assms
  show ?thesis by simp
qed

lemma pixel_radius_1_100: "pixel_radius (Suc 0) (Suc 0) 100 = 1"
proof -
  have h: "round_double (1 / 2) = 1 / 2" by (rule dyadic [of 1 1]) simp_all
  then have a: "ddiv (real_of_int 100) 200 = 1 / 2" by (simp add: ddiv_def)
  have b: "dmul (real_of_int (min (int (Suc 0)) (int (Suc 0)))) (1 / 2) = 1 / 2"
    using h by (simp add: dmul_def)
  show ?thesis by (simp only: pixel_radius_def Let_def a b) (simp add: trunc_cast_def)
qed

lemma round_double_1: "round_double 1 = 1"
  by (rule dyadic [of 1 0]) simp_all

lemma round_float_1: "round_float 1 = 1"
  using round_float_exact [of 1 0] by simp

lemma halo_mask_1: "halo_mask (Suc 0) (Suc 0) 1 ! 0 ! 0 = (1, 1, 1)"
  by (simp add: halo_mask_nth box_mean_def box_sum_def Mat_init_def circle_cv_def in_disc_def
        reflect101_def rows_def cols_def ddiv_def dmul_def round_double_1 round_float_1)

lemma pixel_radius_100_100: "pixel_radius 100 100 100 = 50"
proof -
  have "round_double (1 / 2) = 1 / 2" by (rule dyadic [of 1 1]) simp_all
  then have a: "ddiv (real_of_int 100) 200 = 1 / 2" by (simp add: ddiv_def)
  have "round_double 50 = 50" by (rule dyadic [of 50 0]) simp_all
  then have b: "dmul (real_of_int (min (int 100) (int 100))) (1 / 2) = 50" by (simp add: dmul_def)
  show ?thesis by (simp only: pixel_radius_def Let_def a b) (simp add: trunc_cast_def)
qed

text \<open>
  The rounding to \<open>float\<close> shows on a grey picture of 16 by 16 pixels with the slider
  at 75: the pixel radius is 6, the window of 6 by 6 around the pixel \<open>(3, 3)\<close> holds
  six entries 1 and thirty entries 0.5, and the mean \<open>7 / 12\<close> is stored as
  \<open>9786709 / 2 ^ 24\<close>, just below it. The channel 54 times the stored mean is just
  below 31.5 and the pixel is 31, where the exact product 31.5 would round to 32.
\<close>

lemma ddiv_1_36: "ddiv 1 (real (6 * 6)) = 8006399337547548 / 2 ^ 58"
proof -
  have x: "1 / real (6 * 6) = 1 / 36" by simp
  have p: "(2::real) powr (of_int (- 6 - 52)) = 1 / 2 ^ 58"
    by (simp add: powr_neg_numeral)
  have c: "cvRound (1 / 36 / (1 / 2 ^ 58)) = 8006399337547548"
    by (rule cvRound_eval) simp_all
  have "round_double (1 / 36) = of_int (cvRound (1 / 36 / 2 powr (of_int (- 6 - 52)))) * 2 powr (of_int (- 6 - 52))"
    by (rule round_double_eval) (simp_all add: powr_neg_numeral)
  then show ?thesis unfolding ddiv_def x p c by simp
qed

lemma dmul_21_36: "dmul 21 (8006399337547548 / 2 ^ 58) = 5254199565265578 / 2 ^ 53"
proof -
  have x: "21 * (8006399337547548 / 2 ^ 58) = (168134386088498508 / 2 ^ 58 :: real)" by simp
  have p: "(2::real) powr (of_int (- 1 - 52)) = 1 / 2 ^ 53"
    by (simp add: powr_neg_numeral)
  have c: "cvRound (168134386088498508 / 2 ^ 58 / (1 / 2 ^ 53)) = 5254199565265578"
    by (rule cvRound_eval) simp_all
  have "round_double (168134386088498508 / 2 ^ 58)
        = of_int (cvRound (168134386088498508 / 2 ^ 58 / 2 powr (of_int (- 1 - 52)))) * 2 powr (of_int (- 1 - 52))"
    by (rule round_double_eval) (simp_all add: powr_neg_numeral)
  then show ?thesis unfolding dmul_def x p c by simp
qed

lemma round_float_7_12: "round_float (5254199565265578 / 2 ^ 53) = 9786709 / 2 ^ 24"
proof -
  have p: "(2::real) powr (of_int (- 1 - 23)) = 1 / 2 ^ 24"
    by (simp add: powr_neg_numeral)
  have c: "cvRound (5254199565265578 / 2 ^ 53 / (1 / 2 ^ 24)) = 9786709"
    by (rule cvRound_eval) simp_all
  have "round_float (5254199565265578 / 2 ^ 53)
        = of_int (cvRound (5254199565265578 / 2 ^ 53 / 2 powr (of_int (- 1 - 23)))) * 2 powr (of_int (- 1 - 23))"
    by (rule round_float_eval) (simp_all add: powr_neg_numeral)
  then show ?thesis unfolding p c by simp
qed

lemma fmul_54_7_12: "fmul 54 (9786709 / 2 ^ 24) = 16515071 / 2 ^ 19"
proof -
  have x: "54 * (9786709 / 2 ^ 24) = (528482286 / 2 ^ 24 :: real)" by simp
  have p: "(2::real) powr (of_int (4 - 23)) = 1 / 2 ^ 19"
    by (simp add: powr_neg_numeral)
  have c: "cvRound (528482286 / 2 ^ 24 / (1 / 2 ^ 19)) = 16515071"
    by (rule cvRound_eval) simp_all
  have "round_float (528482286 / 2 ^ 24)
        = of_int (cvRound (528482286 / 2 ^ 24 / 2 powr (of_int (4 - 23)))) * 2 powr (of_int (4 - 23))"
    by (rule round_float_eval) (simp_all add: powr_neg_numeral)
  then show ?thesis unfolding fmul_def x p c by simp
qed

lemma float_product_below_tie:
  "saturate_uchar (round_float (real (unat (54 :: uchar))
      * round_float (dmul 21 (ddiv 1 (real (6 * 6)))))) = 31
   \<and> saturate_uchar (real (unat (54 :: uchar)) * (21 / real (6 * 6))) = 32"
proof -
  have a: "real (unat (54 :: uchar)) = 54" by simp
  have c: "cvRound (16515071 / 2 ^ 19) = 31" by (rule cvRound_eval) simp_all
  have e: "cvRound (54 * (21 / real (6 * 6))) = 32" by (simp add: cvRound_def)
  have "saturate_uchar (round_float (real (unat (54 :: uchar))
      * round_float (dmul 21 (ddiv 1 (real (6 * 6)))))) = 31"
    unfolding a ddiv_1_36 dmul_21_36 round_float_7_12 fmul_54_7_12 [unfolded fmul_def]
      saturate_uchar_def c by simp
  moreover have "saturate_uchar (real (unat (54 :: uchar)) * (21 / real (6 * 6))) = 32"
    unfolding a saturate_uchar_def e by simp
  ultimately show ?thesis by simp
qed

lemma circle_plane_nth:
  assumes "y < nr" "x < nc"
  shows "map (map f) (circle_cv (Mat_init nr nc v) c rad col) ! y ! x
         = f (if in_disc c rad (int x) (int y) then col else v)"
  using assms by (simp add: circle_cv_def Mat_init_def nth_enumerate_eq)

lemma upt_6: "[0..<6] = [0, 1, 2, 3, 4, 5 :: nat]"
  by (simp add: upt_rec)

lemma box_sum_16_3_3:
  fixes f :: "real Vec3 \<Rightarrow> real"
  assumes "f (1 / 2, 1 / 2, 1 / 2) = 1 / 2" and "f (1, 1, 1) = 1"
  shows "box_sum (map (map f) (circle_cv (Mat_init 16 16 (0.5, 0.5, 0.5)) (8, 8) 6 (1, 1, 1))) 6 6 3 3 = 21"
proof -
  let ?pl = "map (map f) (circle_cv (Mat_init 16 16 (1 / 2 :: real, 1 / 2 :: real, 1 / 2 :: real)) (8, 8) 6 (1, 1, 1))"
  have h: "(0.5 :: real) = 1 / 2" by simp
  have r: "rows ?pl = 16" "cols ?pl = 16" by simp_all
  have px: "?pl ! y ! x = (if (int x - 8)\<^sup>2 + (int y - 8)\<^sup>2 \<le> 36 then 1 else 1 / 2)"
    if "y < 16" "x < 16" for y x
    using that assms by (simp add: circle_plane_nth in_disc_def)
  have w: "nat (reflect101 0 16) = 0" "nat (reflect101 1 16) = 1" "nat (reflect101 2 16) = 2"
    "nat (reflect101 3 16) = 3" "nat (reflect101 4 16) = 4" "nat (reflect101 5 16) = 5"
    by (simp_all add: reflect101_def)
  show ?thesis
    unfolding h box_sum_def r upt_6
    by (simp add: w px)
qed

lemma pixel_radius_16_75: "pixel_radius 16 16 75 = 6"
proof -
  have "round_double (3 / 8) = 3 / 8" by (rule dyadic [of 3 3]) simp_all
  then have a: "ddiv (real_of_int 75) 200 = 3 / 8" by (simp add: ddiv_def)
  have "round_double 6 = 6" by (rule dyadic [of 6 0]) simp_all
  then have b: "dmul (real_of_int (min (int 16) (int 16))) (3 / 8) = 6" by (simp add: dmul_def)
  show ?thesis by (simp only: pixel_radius_def Let_def a b) (simp add: trunc_cast_def)
qed

lemma box_mean_16_3_3:
  fixes f :: "real Vec3 \<Rightarrow> real"
  assumes "f (1 / 2, 1 / 2, 1 / 2) = 1 / 2" and "f (1, 1, 1) = 1"
  shows "box_mean (map (map f) (circle_cv (Mat_init 16 16 (0.5, 0.5, 0.5)) (8, 8) 6 (1, 1, 1))) 6 6 3 3
         = 9786709 / 2 ^ 24"
  unfolding box_mean_def box_sum_16_3_3 [OF assms] ddiv_1_36 dmul_21_36 round_float_7_12
  by (rule refl)

lemma halo_mask_16_3_3:
  "halo_mask 16 16 6 ! 3 ! 3 = (9786709 / 2 ^ 24, 9786709 / 2 ^ 24, 9786709 / 2 ^ 24)"
proof -
  have c: "(int 16 div 2, int 16 div 2) = (8, 8)" "nat 6 = 6" by simp_all
  have "halo_mask 16 16 6 ! 3 ! 3 =
     (box_mean (map (map ch0) (circle_cv (Mat_init 16 16 (0.5, 0.5, 0.5)) (int 16 div 2, int 16 div 2) 6 (1, 1, 1))) (nat 6) (nat 6) 3 3,
      box_mean (map (map ch1) (circle_cv (Mat_init 16 16 (0.5, 0.5, 0.5)) (int 16 div 2, int 16 div 2) 6 (1, 1, 1))) (nat 6) (nat 6) 3 3,
      box_mean (map (map ch2) (circle_cv (Mat_init 16 16 (0.5, 0.5, 0.5)) (int 16 div 2, int 16 div 2) 6 (1, 1, 1))) (nat 6) (nat 6) 3 3)"
    by (rule halo_mask_nth) simp_all
  also have "\<dots> = (9786709 / 2 ^ 24, 9786709 / 2 ^ 24, 9786709 / 2 ^ 24)"
    unfolding c by (simp only: box_mean_16_3_3 ch_simps)
  finally show ?thesis .
qed

lemma grey_picture:
  "\<not> empty_mat (Mat_init 16 16 (54, 54, 54) :: uchar Vec3 Mat)"
  "rect (Mat_init 16 16 (54, 54, 54) :: uchar Vec3 Mat)"
  "rows (Mat_init 16 16 (54, 54, 54) :: uchar Vec3 Mat) = 16"
  "cols (Mat_init 16 16 (54, 54, 54) :: uchar Vec3 Mat) = 16"
  by (simp_all add: not_empty_Mat_init rect_Mat_init)

text \<open>The globals of a session on a black picture.\<close>

lemma black_picture:
  assumes "0 < n"
  shows "\<not> empty_mat (img (initial (Mat_init n n (0, 0, 0))))"
    "rect (img (initial (Mat_init n n (0, 0, 0))))"
    "empty_mat (result (initial (Mat_init n n (0, 0, 0))))
     \<or> same_size (result (initial (Mat_init n n (0, 0, 0)))) (img (initial (Mat_init n n (0, 0, 0))))"
  using assms by (simp_all add: initial_def not_empty_Mat_init rect_Mat_init)

section \<open>The lookup table\<close>

lemma exp_e_powr: "exp_e powr a = exp a"
  by (simp add: exp_e_def powr_def)

lemma lut_value_logistic:
  "lut_value sv i = 256 * logistic ((real i / 256 - 1 / 2) / (real_of_int sv / 100))"
  by (simp add: lut_value_def logistic_def exp_e_powr Let_def)

lemma exp_sq_step: "exp a \<le> c \<Longrightarrow> c\<^sup>2 \<le> d \<Longrightarrow> exp (2 * a) \<le> (d::real)"
proof -
  assume a: "exp a \<le> c" and d: "c\<^sup>2 \<le> d"
  have "exp (2 * a) = (exp a)\<^sup>2" by (simp add: exp_double)
  also have "\<dots> \<le> c\<^sup>2" using a by (intro power_mono) simp_all
  finally show ?thesis using d by simp
qed

lemma exp_tmax: "exp (3175 / 512 :: real) \<le> 125650328401063 / 250000000000"
proof -
  have "exp (3175 / 524288 :: real) \<le> 1 + 3175 / 524288 + (3175 / 524288)\<^sup>2"
    by (rule exp_bound) simp_all
  also have "\<dots> \<le> 100609250501 / 100000000000" by (simp add: power2_eq_square)
  finally have e0: "exp (3175 / 524288 :: real) \<le> 100609250501 / 100000000000" .
  have e1: "exp (3175 / 262144 :: real) \<le> 506111064319 / 500000000000"
    using exp_sq_step [OF e0, of "506111064319 / 500000000000"] by (simp add: power2_eq_square)
  have e2: "exp (3175 / 131072 :: real) \<le> 204918727541 / 200000000000"
    using exp_sq_step [OF e1, of "204918727541 / 200000000000"] by (simp add: power2_eq_square)
  have e3: "exp (3175 / 65536 :: real) \<le> 524896061213 / 500000000000"
    using exp_sq_step [OF e2, of "524896061213 / 500000000000"] by (simp add: power2_eq_square)
  have e4: "exp (3175 / 32768 :: real) \<le> 275515875077 / 250000000000"
    using exp_sq_step [OF e3, of "275515875077 / 250000000000"] by (simp add: power2_eq_square)
  have e5: "exp (3175 / 16384 :: real) \<le> 151817994839 / 125000000000"
    using exp_sq_step [OF e4, of "151817994839 / 125000000000"] by (simp add: power2_eq_square)
  have e6: "exp (3175 / 8192 :: real) \<le> 368779256911 / 250000000000"
    using exp_sq_step [OF e5, of "368779256911 / 250000000000"] by (simp add: power2_eq_square)
  have e7: "exp (3175 / 4096 :: real) \<le> 1087985122623 / 500000000000"
    using exp_sq_step [OF e6, of "1087985122623 / 500000000000"] by (simp add: power2_eq_square)
  have e8: "exp (3175 / 2048 :: real) \<le> 1183711627049 / 250000000000"
    using exp_sq_step [OF e7, of "1183711627049 / 250000000000"] by (simp add: power2_eq_square)
  have e9: "exp (3175 / 1024 :: real) \<le> 1401173216011 / 62500000000"
    using exp_sq_step [OF e8, of "1401173216011 / 62500000000"] by (simp add: power2_eq_square)
  show ?thesis
    using exp_sq_step [OF e9, of "125650328401063 / 250000000000"] by (simp add: power2_eq_square)
qed

lemma curve_argument_le:
  assumes "8 \<le> sv" "i < 256"
  shows "(real i / 256 - 1 / 2) / (real_of_int sv / 100) \<le> 3175 / 512"
proof -
  have s: "8 \<le> real_of_int sv" using assms(1) by simp
  have i: "real i \<le> 255" using assms(2) by simp
  then have n: "real i / 256 - 1 / 2 \<le> 127 / 256" by simp
  show ?thesis
  proof (cases "0 \<le> real i / 256 - 1 / 2")
    case True
    have "(real i / 256 - 1 / 2) / (real_of_int sv / 100) \<le> (127 / 256) / (real_of_int sv / 100)"
      using n s by (intro divide_right_mono) simp_all
    also have "\<dots> \<le> (127 / 256) / (8 / 100)"
      using s by (intro divide_left_mono) simp_all
    finally show ?thesis by simp
  next
    case False
    then have "(real i / 256 - 1 / 2) / (real_of_int sv / 100) \<le> 0"
      using s by (intro divide_nonpos_nonneg) simp_all
    then show ?thesis by linarith
  qed
qed

lemma logistic_mono: "a \<le> b \<Longrightarrow> logistic a \<le> logistic b"
  unfolding logistic_def by (intro divide_left_mono add_left_mono) (simp_all add: add_pos_pos)

lemma logistic_pos: "0 < logistic t"
  by (simp add: logistic_def add_pos_pos)

lemma logistic_tmax: "256 * logistic (3175 / 512) < 51099 / 200"
proof -
  have "1 / (125650328401063 / 250000000000) \<le> 1 / exp (3175 / 512 :: real)"
    using exp_tmax by (intro divide_left_mono) simp_all
  also have "\<dots> = exp (- (3175 / 512 :: real))" by (simp add: exp_minus inverse_eq_divide)
  finally have "1 + 1 / (125650328401063 / 250000000000) \<le> 1 + exp (- (3175 / 512 :: real))"
    by simp
  then have "1 / (1 + exp (- (3175 / 512 :: real))) \<le> 1 / (1 + 1 / (125650328401063 / 250000000000))"
    by (intro divide_left_mono) (simp_all add: add_pos_pos)
  then show ?thesis by (simp add: logistic_def)
qed

lemma lut_value_range:
  assumes "8 \<le> sv" "i < 256"
  shows "0 < lut_value sv i \<and> lut_value sv i < 51099 / 200"
proof -
  let ?t = "(real i / 256 - 1 / 2) / (real_of_int sv / 100)"
  have "logistic ?t \<le> logistic (3175 / 512)"
    by (rule logistic_mono) (rule curve_argument_le [OF assms])
  with logistic_tmax logistic_pos [of ?t] show ?thesis
    unfolding lut_value_logistic by simp
qed

lemma cvRound_lt_half: "v < of_int n + 1 / 2 \<Longrightarrow> cvRound v \<le> n"
proof -
  assume v: "v < of_int n + 1 / 2"
  then have f: "\<lfloor>v\<rfloor> \<le> n" by linarith
  show ?thesis
  proof (cases "\<lfloor>v\<rfloor> = n")
    case True
    with v have "v - of_int \<lfloor>v\<rfloor> < 1 / 2" by simp
    with True show ?thesis by (simp add: cvRound_def Let_def)
  next
    case False
    with f have "\<lfloor>v\<rfloor> + 1 \<le> n" by simp
    then show ?thesis unfolding cvRound_def Let_def by auto
  qed
qed

lemma cvRound_gt_half: "of_int n - 1 / 2 < v \<Longrightarrow> n \<le> cvRound v"
proof -
  assume v: "of_int n - 1 / 2 < v"
  then have f: "n - 1 \<le> \<lfloor>v\<rfloor>" by linarith
  show ?thesis
  proof (cases "\<lfloor>v\<rfloor> = n - 1")
    case True
    with v have "1 / 2 < v - of_int \<lfloor>v\<rfloor>" by simp
    with True show ?thesis by (simp add: cvRound_def Let_def)
  next
    case False
    with f have "n \<le> \<lfloor>v\<rfloor>" by simp
    then show ?thesis unfolding cvRound_def Let_def by auto
  qed
qed

text \<open>
  The rounded value stays in the range of \<open>uchar\<close> for every argument of \<open>cvRound\<close>
  within 1/200 of the exact value of the formula.
\<close>

lemma cvRound_near_lut_range:
  assumes "8 \<le> sv" "i < 256" "\<bar>v - lut_value sv i\<bar> \<le> 1 / 200"
  shows "0 \<le> cvRound v \<and> cvRound v \<le> 255"
proof -
  from lut_value_range [OF assms(1,2)] assms(3)
  have "- (1 / 2) < v" "v < 255 + 1 / 2" by linarith+
  then have r: "of_int 0 - 1 / 2 < v" "v < of_int 255 + 1 / 2" by simp_all
  from cvRound_gt_half [OF r(1)] cvRound_lt_half [OF r(2)] show ?thesis by simp
qed

lemma cvRound_lut_range:
  assumes "8 \<le> sv" "i < 256"
  shows "0 \<le> cvRound (lut_value sv i) \<and> cvRound (lut_value sv i) \<le> 255"
  by (rule cvRound_near_lut_range [OF assms]) simp

lemma uchar_of_cvRound:
  assumes "0 \<le> cvRound v" "cvRound v \<le> 255"
  shows "uint (word_of_int (cvRound v) :: uchar) = cvRound v"
    and "(word_of_int (cvRound v) :: uchar) = saturate_uchar v"
  using assms by (simp_all add: uint_word_of_int take_bit_eq_mod saturate_uchar_def)

lemma build_lut_nth: "i < 256 \<Longrightarrow> build_lut sv ! i = word_of_int (cvRound (lut_value sv i))"
  by (simp add: build_lut_def)

lemma uint_lut_entry:
  assumes "8 \<le> sv" "i < 256"
  shows "uint (build_lut sv ! i) = cvRound (lut_value sv i)"
  using cvRound_lut_range [OF assms] assms(2)
  by (simp add: build_lut_nth uint_word_of_int take_bit_eq_mod)

section \<open>The claims about the two callbacks and the session\<close>

lemma imshow_initial: "\<not> empty_mat im \<Longrightarrow> imshow im (initial im) = Inr (start im)"
  by (simp add: imshow_def start_def)

lemma one_pixel_picture:
  "\<not> empty_mat [[(10, 20, 30) :: uchar Vec3]]" "rect [[(10, 20, 30) :: uchar Vec3]]"
  by (simp_all add: empty_mat_def rows_def cols_def rect_def)

text \<open>
  C4. On a decoded picture the colour callback succeeds and leaves \<open>img\<close> as it was;
  \<open>result\<close> is the remapped picture, of the same numbers of rows and columns and the
  same row lengths. For any table of 256 entries, the remapped picture has the size of
  the source and at every pixel the table's entry for the source's channel 2 in
  channel 2, and the source's channels 0 and 1.
\<close>

theorem color_filter_channels:
  assumes "\<not> empty_mat (img st)"
  shows "\<exists>st'. trackbar_color st = Inr st' \<and> img st' = img st
           \<and> result st' = remap_red (img st) (build_lut (s st'))
           \<and> rows (result st') = rows (img st) \<and> cols (result st') = cols (img st)
           \<and> same_size (result st') (img st)
           \<and> length (build_lut (s st')) = 256
           \<and> (\<forall>lut. length lut = 256 \<longrightarrow>
                 same_size (remap_red (img st) lut) (img st)
               \<and> (\<forall>y<rows (img st). \<forall>x<length (img st ! y).
                     unat (ch2 (img st ! y ! x)) < length lut
                   \<and> ch2 (remap_red (img st) lut ! y ! x) = lut ! unat (ch2 (img st ! y ! x))
                   \<and> ch0 (remap_red (img st) lut ! y ! x) = ch0 (img st ! y ! x)
                   \<and> ch1 (remap_red (img st) lut ! y ! x) = ch1 (img st ! y ! x)))"
proof -
  have "unat v < 256" for v :: uchar
    using unsigned_less [of v, where 'a = nat] by simp
  with assms show ?thesis
    by (simp add: trackbar_color_ok rows_remap_red cols_remap_red same_size_remap_red
          remap_red_pixel length_build_lut)
qed

theorem color_filter_channels_witness:
  "\<not> empty_mat (img (initial [[(10, 20, 30)]]))
   \<and> (\<exists>st'. trackbar_color (initial [[(10, 20, 30)]]) = Inr st' \<and> img st' = [[(10, 20, 30)]]
         \<and> rows (result st') = 1 \<and> cols (result st') = 1
         \<and> ch2 (remap_red [[(10, 20, 30)]] (build_lut 10) ! 0 ! 0) = build_lut 10 ! 30
         \<and> ch0 (remap_red [[(10, 20, 30)]] (build_lut 10) ! 0 ! 0) = 10
         \<and> ch1 (remap_red [[(10, 20, 30)]] (build_lut 10) ! 0 ! 0) = 20)"
proof -
  have h: "\<not> empty_mat (img (initial [[(10, 20, 30)]]))"
    by (simp add: initial_def one_pixel_picture)
  from color_filter_channels [OF h] obtain st' where
    st': "trackbar_color (initial [[(10, 20, 30)]]) = Inr st'"
      "img st' = img (initial [[(10, 20, 30)]])"
      "rows (result st') = rows (img (initial [[(10, 20, 30)]]))"
      "cols (result st') = cols (img (initial [[(10, 20, 30)]]))"
    and px: "\<forall>lut. length lut = 256 \<longrightarrow>
               (\<forall>y<rows (img (initial [[(10, 20, 30)]])).
                \<forall>x<length (img (initial [[(10, 20, 30)]]) ! y).
                 ch2 (remap_red (img (initial [[(10, 20, 30)]])) lut ! y ! x)
                   = lut ! unat (ch2 (img (initial [[(10, 20, 30)]]) ! y ! x))
               \<and> ch0 (remap_red (img (initial [[(10, 20, 30)]])) lut ! y ! x)
                   = ch0 (img (initial [[(10, 20, 30)]]) ! y ! x)
               \<and> ch1 (remap_red (img (initial [[(10, 20, 30)]])) lut ! y ! x)
                   = ch1 (img (initial [[(10, 20, 30)]]) ! y ! x))"
    by blast
  from px [rule_format, OF length_build_lut [of 10]] have "ch2 (remap_red [[(10, 20, 30)]] (build_lut 10) ! 0 ! 0) = build_lut 10 ! 30
      \<and> ch0 (remap_red [[(10, 20, 30)]] (build_lut 10) ! 0 ! 0) = 10
      \<and> ch1 (remap_red [[(10, 20, 30)]] (build_lut 10) ! 0 ! 0) = 20"
    by (simp add: initial_def rows_def)
  with h st' show ?thesis
    by (simp add: initial_def rows_def cols_def)
qed

text \<open>
  What a movement of the halo trackbar leaves in the globals, after any movements of
  the two trackbars on a decoded picture.
\<close>

lemma halo_after_events:
  assumes "\<not> empty_mat im" and "rect im"
  shows "\<exists>st st'. run_events evs (start im) = Inr st \<and> deliver (Halo p) st = Inr st'
           \<and> result st' = (if empty_mat (result st) then im else result st)
           \<and> result st' = color_result im evs
           \<and> radius st' = pixel_radius (cols im) (rows im) p
           \<and> display st' = VignetteFilter (result st') (halo_mask (rows im) (cols im) (radius st'))
           \<and> shown st' = display st' \<and> img st' = im"
proof -
  from run_events_reached [OF assms, of evs] obtain st where
    st: "run_events evs (start im) = Inr st" "reached im evs st" by blast
  let ?st = "st\<lparr>radius := p\<rparr>"
  have i: "img st = im" using st(2) by (simp add: reached_def)
  have rs: "empty_mat (result ?st) \<or> same_size (result ?st) (img ?st)"
    using st(2) by (auto simp: reached_def same_size_color_result split: if_splits)
  have R: "(if empty_mat (result st) then im else result st) = color_result im evs"
    using st(2) assms(1)
    by (auto simp: reached_def color_result_def empty_remap_red split: if_splits option.splits)
  have ne': "\<not> empty_mat (img ?st)" and r': "rect (img ?st)" using assms i by simp_all
  have R1: "empty_mat (result st) \<Longrightarrow> color_result im evs = im"
    and R2: "\<not> empty_mat (result st) \<Longrightarrow> color_result im evs = result st"
    using R by (simp_all split: if_splits)
  from trackbar_halo_ok [OF ne' r' rs] st(1) show ?thesis
    by (cases "empty_mat (result st)") (simp_all add: i R1 R2)
qed

text \<open>
  C2. After any movements of the two trackbars on a decoded picture, a movement of the
  halo trackbar succeeds; \<open>result\<close> is what it was, or the decoded picture when it was
  empty, and in both cases it is the picture of the last movement of the colour
  trackbar (the decoded picture when there was none). \<open>display\<close> has the size of the
  picture, and it is what is shown; each channel of each of its pixels is the channel
  of \<open>result\<close> at that pixel times the channel of the mask there, the product rounded
  to \<open>float\<close>, then to the nearest integer and saturated to eight bits.
\<close>

theorem halo_composes_on_color_result:
  assumes "\<not> empty_mat im" and "rect im"
  shows "\<exists>st st'. run_events evs (start im) = Inr st \<and> deliver (Halo p) st = Inr st'
           \<and> result st' = (if empty_mat (result st) then im else result st)
           \<and> result st' = color_result im evs
           \<and> radius st' = pixel_radius (cols im) (rows im) p
           \<and> display st' = VignetteFilter (result st') (halo_mask (rows im) (cols im) (radius st'))
           \<and> shown st' = display st' \<and> img st' = im
           \<and> same_size (display st') im
           \<and> (\<forall>y<rows im. \<forall>x<cols im.
                 display st' ! y ! x =
                   (saturate_uchar (round_float
                      (real (unat (ch0 (color_result im evs ! y ! x)))
                       * ch0 (halo_mask (rows im) (cols im) (pixel_radius (cols im) (rows im) p) ! y ! x))),
                    saturate_uchar (round_float
                      (real (unat (ch1 (color_result im evs ! y ! x)))
                       * ch1 (halo_mask (rows im) (cols im) (pixel_radius (cols im) (rows im) p) ! y ! x))),
                    saturate_uchar (round_float
                      (real (unat (ch2 (color_result im evs ! y ! x)))
                       * ch2 (halo_mask (rows im) (cols im) (pixel_radius (cols im) (rows im) p) ! y ! x)))))"
proof -
  from halo_after_events [OF assms, of evs p] obtain st st' where
    st: "run_events evs (start im) = Inr st" "deliver (Halo p) st = Inr st'"
      "result st' = (if empty_mat (result st) then im else result st)"
      "result st' = color_result im evs"
      "radius st' = pixel_radius (cols im) (rows im) p"
      "display st' = VignetteFilter (result st') (halo_mask (rows im) (cols im) (radius st'))"
      "shown st' = display st'" "img st' = im"
    by blast
  let ?R = "color_result im evs"
  let ?H = "halo_mask (rows im) (cols im) (pixel_radius (cols im) (rows im) p)"
  have d: "display st' = VignetteFilter ?R ?H" using st(4,5,6) by simp
  have R: "same_size ?R im" by (rule same_size_color_result)
  have RH: "same_size ?R ?H" by (rule same_size_mask [OF assms(2) assms(1) R])
  have sz: "same_size (display st') im"
    using same_size_VignetteFilter [OF RH] R unfolding d by (simp add: same_size_def)
  have px: "display st' ! y ! x =
      (saturate_uchar (round_float (real (unat (ch0 (?R ! y ! x))) * ch0 (?H ! y ! x))),
       saturate_uchar (round_float (real (unat (ch1 (?R ! y ! x))) * ch1 (?H ! y ! x))),
       saturate_uchar (round_float (real (unat (ch2 (?R ! y ! x))) * ch2 (?H ! y ! x))))"
    if "y < rows im" "x < cols im" for y x
  proof -
    from rect_nth_length [OF assms(2) R that(1)] have r: "y < length ?R" "x < length (?R ! y)"
      using that(2) by simp_all
    from halo_mask_nth_length [OF that(1), of "cols im" "pixel_radius (cols im) (rows im) p"]
    have h: "y < length ?H" "x < length (?H ! y)" using that(2) by simp_all
    show ?thesis unfolding d by (rule VignetteFilter_nth [OF r(1) h(1) r(2) h(2)])
  qed
  from st sz px show ?thesis
    by (intro exI [of _ st] exI [of _ st']) simp
qed

theorem halo_composes_on_color_result_witness:
  "\<not> empty_mat (Mat_init 16 16 (54, 54, 54) :: uchar Vec3 Mat)
   \<and> rect (Mat_init 16 16 (54, 54, 54) :: uchar Vec3 Mat)
   \<and> (\<exists>st st'. run_events [Color 12] (start (Mat_init 16 16 (54, 54, 54))) = Inr st
         \<and> deliver (Halo 75) st = Inr st'
         \<and> result st' = remap_red (Mat_init 16 16 (54, 54, 54)) (build_lut 12)
         \<and> radius st' = 6
         \<and> display st' ! 3 ! 3 =
             (31, 31, saturate_uchar (round_float (real (unat (build_lut 12 ! 54)) * (9786709 / 2 ^ 24))))
         \<and> shown st' = display st')"
proof -
  let ?P = "Mat_init 16 16 (54, 54, 54) :: uchar Vec3 Mat"
  note p = grey_picture
  from halo_composes_on_color_result [OF p(1,2), of "[Color 12]" 75]
  obtain st st' where
    st: "run_events [Color 12] (start ?P) = Inr st"
    "deliver (Halo 75) st = Inr st'"
    "result st' = color_result ?P [Color 12]"
    "radius st' = pixel_radius (cols ?P) (rows ?P) 75"
    "shown st' = display st'"
    and px: "\<forall>y<rows ?P. \<forall>x<cols ?P.
       display st' ! y ! x =
         (saturate_uchar (round_float
            (real (unat (ch0 (color_result ?P [Color 12] ! y ! x)))
             * ch0 (halo_mask (rows ?P) (cols ?P) (pixel_radius (cols ?P) (rows ?P) 75) ! y ! x))),
          saturate_uchar (round_float
            (real (unat (ch1 (color_result ?P [Color 12] ! y ! x)))
             * ch1 (halo_mask (rows ?P) (cols ?P) (pixel_radius (cols ?P) (rows ?P) 75) ! y ! x))),
          saturate_uchar (round_float
            (real (unat (ch2 (color_result ?P [Color 12] ! y ! x)))
             * ch2 (halo_mask (rows ?P) (cols ?P) (pixel_radius (cols ?P) (rows ?P) 75) ! y ! x))))"
    by blast
  have c: "color_result ?P [Color 12] = remap_red ?P (build_lut 12)"
    by (simp add: color_result_def)
  have r: "remap_red ?P (build_lut 12) ! 3 ! 3 = (54, 54, build_lut 12 ! 54)"
    using remap_red_pixel [of 3 ?P 3 "build_lut 12"] by (simp add: Mat_init_def rows_def)
  have y: "3 < rows ?P" and x: "3 < cols ?P" by (simp_all add: p(3,4))
  have f: "saturate_uchar (round_float (real (unat (54 :: uchar)) * (9786709 / 2 ^ 24))) = 31"
    using float_product_below_tie
    by (simp only: ddiv_1_36 dmul_21_36 round_float_7_12)
  from px [rule_format, OF y x]
  have "display st' ! 3 ! 3 =
      (saturate_uchar (round_float (real (unat (54 :: uchar)) * (9786709 / 2 ^ 24))),
       saturate_uchar (round_float (real (unat (54 :: uchar)) * (9786709 / 2 ^ 24))),
       saturate_uchar (round_float (real (unat (build_lut 12 ! 54)) * (9786709 / 2 ^ 24))))"
    by (simp only: c r p(3,4) pixel_radius_16_75 halo_mask_16_3_3 ch_simps)
  then have d: "display st' ! 3 ! 3 =
      (31, 31, saturate_uchar (round_float (real (unat (build_lut 12 ! 54)) * (9786709 / 2 ^ 24))))"
    by (simp only: f)
  have "radius st' = 6" using st(4) by (simp only: p(3,4) pixel_radius_16_75)
  with st d c have "\<exists>st st'. run_events [Color 12] (start ?P) = Inr st
         \<and> deliver (Halo 75) st = Inr st'
         \<and> result st' = remap_red ?P (build_lut 12)
         \<and> radius st' = 6
         \<and> display st' ! 3 ! 3 =
             (31, 31, saturate_uchar (round_float (real (unat (build_lut 12 ! 54)) * (9786709 / 2 ^ 24))))
         \<and> shown st' = display st'"
    by (intro exI [of _ st] exI [of _ st']) simp
  with p(1,2) show ?thesis by blast
qed

text \<open>
  C8. On a decoded picture, after any movements of the trackbars, a movement of the
  colour trackbar to \<open>v\<close> leaves in \<open>result\<close> the decoded picture remapped by the table
  of \<open>max v 8\<close>; a second movement to \<open>v\<close>, after any further movements \<open>hs\<close> of the
  trackbars (of the halo trackbar in particular), leaves the same \<open>result\<close>. The decoded
  picture never changes.
\<close>

theorem color_filter_idempotent:
  assumes "\<not> empty_mat im" and "rect im"
  shows "\<exists>st1 st2. run_events (evs @ [Color v]) (start im) = Inr st1
           \<and> run_events (evs @ Color v # hs @ [Color v]) (start im) = Inr st2
           \<and> result st1 = remap_red im (build_lut (max v 8))
           \<and> result st2 = result st1 \<and> img st1 = im \<and> img st2 = im"
proof -
  from run_events_reached [OF assms, of "evs @ [Color v]"] obtain st1 where
    st1: "run_events (evs @ [Color v]) (start im) = Inr st1" "reached im (evs @ [Color v]) st1"
    by blast
  from run_events_reached [OF assms, of "(evs @ Color v # hs) @ [Color v]"] obtain st2 where
    st2: "run_events (evs @ Color v # hs @ [Color v]) (start im) = Inr st2"
         "reached im ((evs @ Color v # hs) @ [Color v]) st2"
    by auto
  from st1(2) have "result st1 = remap_red im (build_lut (max v 8))" "img st1 = im"
    by (simp_all add: reached_def color_result_def)
  moreover from st2(2) have "result st2 = remap_red im (build_lut (max v 8))" "img st2 = im"
    unfolding reached_def color_result_def last_color_snoc_Color by simp_all
  ultimately show ?thesis using st1(1) st2(1) by simp
qed

theorem color_filter_idempotent_witness:
  "\<not> empty_mat [[(10, 20, 30) :: uchar Vec3]] \<and> rect [[(10, 20, 30) :: uchar Vec3]]
   \<and> (\<exists>st1 st2. run_events [Color 12] (start [[(10, 20, 30)]]) = Inr st1
         \<and> run_events [Color 12, Halo 40, Halo 70, Color 12] (start [[(10, 20, 30)]]) = Inr st2
         \<and> result st1 = remap_red [[(10, 20, 30)]] (build_lut 12)
         \<and> result st2 = result st1)"
proof -
  from color_filter_idempotent [OF one_pixel_picture, of "[]" 12 "[Halo 40, Halo 70]"]
  obtain st1 st2 where
    "run_events ([] @ [Color 12]) (start [[(10, 20, 30)]]) = Inr st1"
    "run_events ([] @ Color 12 # [Halo 40, Halo 70] @ [Color 12]) (start [[(10, 20, 30)]]) = Inr st2"
    "result st1 = remap_red [[(10, 20, 30)]] (build_lut (max 12 8))"
    "result st2 = result st1"
    by blast
  then have "\<exists>st1 st2. run_events [Color 12] (start [[(10, 20, 30)]]) = Inr st1
         \<and> run_events [Color 12, Halo 40, Halo 70, Color 12] (start [[(10, 20, 30)]]) = Inr st2
         \<and> result st1 = remap_red [[(10, 20, 30)]] (build_lut 12)
         \<and> result st2 = result st1"
    by (intro exI [of _ st1] exI [of _ st2]) simp
  with one_pixel_picture show ?thesis by blast
qed

text \<open>
  C9, as the program has it. \<open>main\<close> calls \<open>cv::waitKey\<close> once: on a decoded picture,
  whatever the movements of the trackbars before it, the first key ends the program.
  The key \<open>s\<close> writes \<open>display\<close> and the exit code is 0 (with the code 1 and nothing
  written when \<open>display\<close> is empty); \<open>q\<close> and every other key write nothing, and the
  exit code is 0.
\<close>

theorem first_key_ends_program:
  assumes "\<not> empty_mat im" and "rect im"
  shows "\<exists>st. run_events evs (start im) = Inr st
           \<and> main (Picture im) evs (k # ks) =
               Some (if (word_of_int k :: uchar) = 115
                     then (if empty_mat (display st)
                           then \<lparr>exit_code = 1, output_jpg = None\<rparr>
                           else \<lparr>exit_code = 0, output_jpg = Some (display st)\<rparr>)
                     else \<lparr>exit_code = 0, output_jpg = None\<rparr>)"
proof -
  from run_events_reached [OF assms, of evs] obtain st where
    st: "run_events evs (start im) = Inr st" by blast
  then show ?thesis
    using assms(1)
    by (simp add: main_def main_try_def imshow_initial key_gate_def imwrite_def Let_def)
qed

theorem first_key_ends_program_witness:
  "\<not> empty_mat [[(10, 20, 30) :: uchar Vec3]] \<and> rect [[(10, 20, 30) :: uchar Vec3]]
   \<and> main (Picture [[(10, 20, 30)]]) [Color 12] [120, 115]
       = Some \<lparr>exit_code = 0, output_jpg = None\<rparr>"
  using first_key_ends_program [OF one_pixel_picture, of "[Color 12]" 120 "[115]"]
  by (simp add: one_pixel_picture)

text \<open>
  C9, as the specification has it, fails: with the key \<open>x\<close> (code 120) the program
  ends with the exit code 0, whatever key follows, where a program that ignores \<open>x\<close>
  would go on as without it: it would still be waiting when no key follows, and would
  attempt the write on a following \<open>s\<close>.
\<close>

theorem unrecognised_key_counterexample:
  "main (Picture [[(10, 20, 30)]]) [] [120, 115] = Some \<lparr>exit_code = 0, output_jpg = None\<rparr>
   \<and> main (Picture [[(10, 20, 30)]]) [] [120, 115] \<noteq> main (Picture [[(10, 20, 30)]]) [] [115]
   \<and> main (Picture [[(10, 20, 30)]]) [] [120] \<noteq> main (Picture [[(10, 20, 30)]]) [] []"
  by (simp add: main_def main_try_def imshow_def empty_mat_def rows_def cols_def key_gate_def
        initial_def imwrite_def)

text \<open>
  C10. On a decoded picture, when only the colour trackbar has moved (or none),
  \<open>display\<close> is still empty at the key \<open>s\<close>: \<open>cv::imwrite\<close> raises, \<open>main\<close> catches the
  exception, nothing is written and the exit code is 1.
\<close>

theorem save_before_halo_fails:
  assumes "\<not> empty_mat im" and "rect im" and "list_all is_Color evs"
    and "(word_of_int k :: uchar) = 115"
  shows "\<exists>st. run_events evs (start im) = Inr st \<and> display st = []
           \<and> imwrite (display st) = Inl CvException
           \<and> main_try (Picture im) evs (k # ks) = Inl CvException
           \<and> main (Picture im) evs (k # ks) = Some \<lparr>exit_code = 1, output_jpg = None\<rparr>"
proof -
  from run_events_reached [OF assms(1,2), of evs] obtain st where
    st: "run_events evs (start im) = Inr st" "reached im evs st" by blast
  from st(2) assms(3) have d: "display st = []" by (simp add: reached_def)
  then have w: "imwrite (display st) = Inl CvException" by (simp add: imwrite_def)
  have "key_gate st (k # ks) = Inl CvException"
    using assms(4) w by (simp add: key_gate_def)
  with st(1) d w assms(1) show ?thesis
    by (simp add: main_def main_try_def imshow_initial)
qed

theorem save_before_halo_fails_witness:
  "\<not> empty_mat [[(10, 20, 30) :: uchar Vec3]] \<and> rect [[(10, 20, 30) :: uchar Vec3]]
   \<and> list_all is_Color [Color 12, Color 3] \<and> (word_of_int 115 :: uchar) = 115
   \<and> main (Picture [[(10, 20, 30)]]) [Color 12, Color 3] [115]
       = Some \<lparr>exit_code = 1, output_jpg = None\<rparr>"
proof -
  have h: "list_all is_Color [Color 12, Color 3]" "(word_of_int 115 :: uchar) = 115"
    by simp_all
  from save_before_halo_fails [OF one_pixel_picture h, of "[]"] h one_pixel_picture
  show ?thesis by blast
qed

section \<open>The claims about the radius and the mask\<close>

text \<open>
  C3, as the program has it. \<open>radius\<close> is the variable bound to the halo trackbar: the
  toolkit stores the position of the slider in it before every call of the callback,
  and the callback overwrites it with the pixel radius. So on a decoded picture, after
  any movements of the two trackbars, a movement of the halo trackbar to \<open>p\<close> leaves
  in \<open>radius\<close> the pixel radius of \<open>p\<close>, and a later movement to the same \<open>p\<close>, after
  any movements \<open>mid\<close> in between, leaves the same pixel radius, not a smaller one;
  when the colour trackbar has not moved in between, \<open>result\<close>, \<open>display\<close> and the
  picture shown are the same too.
\<close>

theorem halo_same_position_same_radius:
  assumes "\<not> empty_mat im" and "rect im"
  shows "\<exists>st1 st2. run_events (evs @ [Halo p]) (start im) = Inr st1
           \<and> run_events (evs @ Halo p # mid @ [Halo p]) (start im) = Inr st2
           \<and> radius st1 = pixel_radius (cols im) (rows im) p
           \<and> radius st2 = radius st1 \<and> radius st2 \<le> radius st1
           \<and> (list_all is_Halo mid \<longrightarrow>
                 result st2 = result st1 \<and> display st2 = display st1 \<and> shown st2 = shown st1)"
proof -
  from halo_after_events [OF assms, of evs p] obtain st st1 where
    one: "run_events evs (start im) = Inr st" "deliver (Halo p) st = Inr st1"
      "result st1 = color_result im evs"
      "radius st1 = pixel_radius (cols im) (rows im) p"
      "display st1 = VignetteFilter (result st1) (halo_mask (rows im) (cols im) (radius st1))"
      "shown st1 = display st1"
    by blast
  from halo_after_events [OF assms, of "evs @ Halo p # mid" p] obtain st' st2 where
    two: "run_events (evs @ Halo p # mid) (start im) = Inr st'" "deliver (Halo p) st' = Inr st2"
      "result st2 = color_result im (evs @ Halo p # mid)"
      "radius st2 = pixel_radius (cols im) (rows im) p"
      "display st2 = VignetteFilter (result st2) (halo_mask (rows im) (cols im) (radius st2))"
      "shown st2 = display st2"
    by blast
  have r1: "run_events (evs @ [Halo p]) (start im) = Inr st1"
    using one(1,2) by (simp add: run_events_append)
  have "evs @ Halo p # mid @ [Halo p] = (evs @ Halo p # mid) @ [Halo p]" by simp
  then have r2: "run_events (evs @ Halo p # mid @ [Halo p]) (start im) = Inr st2"
    using two(1,2) by (simp only: run_events_append) simp
  have same: "result st2 = result st1" if "list_all is_Halo mid"
  proof -
    from that have "list_all is_Halo (Halo p # mid)" by simp
    from color_result_halos [OF this, of im evs] show ?thesis using one(3) two(3) by simp
  qed
  from r1 r2 one(4,5,6) two(4,5,6) same show ?thesis
    by (intro exI [of _ st1] exI [of _ st2]) simp
qed

theorem halo_same_position_same_radius_witness:
  "\<not> empty_mat (Mat_init 100 100 (0, 0, 0) :: uchar Vec3 Mat)
   \<and> rect (Mat_init 100 100 (0, 0, 0) :: uchar Vec3 Mat)
   \<and> list_all is_Halo [Halo 40]
   \<and> (\<exists>st1 st2. run_events ([Color 12] @ [Halo 100]) (start (Mat_init 100 100 (0, 0, 0))) = Inr st1
         \<and> run_events ([Color 12] @ Halo 100 # [Halo 40] @ [Halo 100])
              (start (Mat_init 100 100 (0, 0, 0))) = Inr st2
         \<and> radius st1 = 50 \<and> radius st2 = 50
         \<and> result st2 = result st1 \<and> display st2 = display st1)"
proof -
  let ?M = "Mat_init 100 100 (0, 0, 0) :: uchar Vec3 Mat"
  have n: "(0::nat) < 100" by simp
  have m: "\<not> empty_mat ?M" "rect ?M"
    by (rule not_empty_Mat_init [OF n n]) (rule rect_Mat_init)
  have h: "list_all is_Halo [Halo 40]" by simp
  from halo_same_position_same_radius [OF m, of "[Color 12]" 100 "[Halo 40]"]
  obtain st1 st2 where
    st: "run_events ([Color 12] @ [Halo 100]) (start ?M) = Inr st1"
      "run_events ([Color 12] @ Halo 100 # [Halo 40] @ [Halo 100]) (start ?M) = Inr st2"
      "radius st1 = pixel_radius (cols ?M) (rows ?M) 100"
      "radius st2 = radius st1"
      "list_all is_Halo [Halo 40] \<longrightarrow>
         result st2 = result st1 \<and> display st2 = display st1 \<and> shown st2 = shown st1"
    by blast
  have "radius st1 = 50" using st(3) by (simp add: pixel_radius_100_100)
  with st h have "\<exists>st1 st2. run_events ([Color 12] @ [Halo 100]) (start ?M) = Inr st1
         \<and> run_events ([Color 12] @ Halo 100 # [Halo 40] @ [Halo 100]) (start ?M) = Inr st2
         \<and> radius st1 = 50 \<and> radius st2 = 50
         \<and> result st2 = result st1 \<and> display st2 = display st1"
    by (intro exI [of _ st1] exI [of _ st2]) simp
  with m h show ?thesis by blast
qed

text \<open>
  C3, as the specification has it, fails: the filter is idempotent in its radius
  parameter. On a black picture of 100 by 100 pixels a movement of the halo trackbar
  to 100 leaves 50 in \<open>radius\<close>; a second movement to 100 leaves 50 again, not 25, and
  leaves every global as the first movement left it.
\<close>

theorem halo_radius_same_counterexample:
  "map_sum id radius (run_events [Halo 100] (start (Mat_init 100 100 (0, 0, 0)))) = Inr 50
   \<and> map_sum id radius (run_events [Halo 100, Halo 100] (start (Mat_init 100 100 (0, 0, 0)))) = Inr 50
   \<and> run_events [Halo 100, Halo 100] (start (Mat_init 100 100 (0, 0, 0)))
       = run_events [Halo 100] (start (Mat_init 100 100 (0, 0, 0)))"
proof -
  let ?st = "start (Mat_init 100 100 (0, 0, 0))"
  have n: "(0::nat) < 100" by simp
  have b: "\<not> empty_mat (img ?st)" "rect (img ?st)"
    "empty_mat (result ?st) \<or> same_size (result ?st) (img ?st)"
    using black_picture [OF n] by (simp_all add: start_def)
  have d: "cols (img ?st) = 100" "rows (img ?st) = 100"
    by (simp_all add: start_def initial_def)
  from trackbar_halo_again [OF b, of 100] obtain st1 where
    st1: "trackbar_halo (?st\<lparr>radius := 100\<rparr>) = Inr st1"
      "trackbar_halo (st1\<lparr>radius := 100\<rparr>) = Inr st1"
      "radius st1 = 50"
    unfolding d pixel_radius_100_100 by blast
  then show ?thesis by simp
qed

text \<open>
  C5. The halo callback leaves in \<open>radius\<close> the product of the smaller side of the
  picture and \<open>radius / 200.0\<close>, both operations rounded to \<open>double\<close>, truncated to
  an integer and raised to 1 at least; the mask of the picture shown is built with it.
  For a position of the trackbar (0 to 100) this is the integer quotient of the
  smaller side times the position by 200, or one less, and at least 1.
\<close>

theorem halo_pixel_radius:
  assumes "\<not> empty_mat (img st)" and "rect (img st)"
    and "empty_mat (result st) \<or> same_size (result st) (img st)"
  shows "\<exists>st'. trackbar_halo st = Inr st'
           \<and> radius st' =
               max 1 (trunc_cast (dmul (real_of_int (min (int (cols (img st))) (int (rows (img st)))))
                                       (ddiv (real_of_int (radius st)) 200)))
           \<and> 1 \<le> radius st'
           \<and> display st' = VignetteFilter (result st')
                               (halo_mask (rows (img st)) (cols (img st)) (radius st'))
           \<and> (cols (img st) < 2 ^ 31 \<and> rows (img st) < 2 ^ 31
                \<and> 0 \<le> radius st \<and> radius st \<le> 100 \<longrightarrow>
              max 1 (int (min (cols (img st)) (rows (img st))) * radius st div 200 - 1) \<le> radius st'
              \<and> radius st' \<le> max 1 (int (min (cols (img st)) (rows (img st))) * radius st div 200))"
proof -
  have "pixel_radius (cols (img st)) (rows (img st)) (radius st) =
        max 1 (trunc_cast (dmul (real_of_int (min (int (cols (img st))) (int (rows (img st)))))
                                (ddiv (real_of_int (radius st)) 200)))"
    by (simp add: pixel_radius_def)
  moreover have "1 \<le> pixel_radius (cols (img st)) (rows (img st)) (radius st)"
    by (rule pixel_radius_ge_1)
  moreover have "max 1 (int (min (cols (img st)) (rows (img st))) * radius st div 200 - 1)
         \<le> pixel_radius (cols (img st)) (rows (img st)) (radius st)
      \<and> pixel_radius (cols (img st)) (rows (img st)) (radius st)
         \<le> max 1 (int (min (cols (img st)) (rows (img st))) * radius st div 200)"
    if "cols (img st) < 2 ^ 31" "rows (img st) < 2 ^ 31" "0 \<le> radius st" "radius st \<le> 100"
    using that by (rule pixel_radius_near_exact)
  ultimately show ?thesis
    unfolding trackbar_halo_ok [OF assms] by simp
qed

theorem halo_pixel_radius_witness:
  "\<not> empty_mat (img ((initial (Mat_init 100 100 (0, 0, 0)))\<lparr>radius := 58\<rparr>))
   \<and> rect (img ((initial (Mat_init 100 100 (0, 0, 0)))\<lparr>radius := 58\<rparr>))
   \<and> empty_mat (result ((initial (Mat_init 100 100 (0, 0, 0)))\<lparr>radius := 58\<rparr>))
   \<and> cols (Mat_init 100 100 ((0, 0, 0) :: uchar Vec3)) < 2 ^ 31
   \<and> rows (Mat_init 100 100 ((0, 0, 0) :: uchar Vec3)) < 2 ^ 31
   \<and> (0::int) \<le> 58 \<and> (58::int) \<le> 100
   \<and> (\<exists>st'. trackbar_halo ((initial (Mat_init 100 100 (0, 0, 0)))\<lparr>radius := 58\<rparr>) = Inr st'
         \<and> radius st' = 28 \<and> 28 \<le> radius st' \<and> radius st' \<le> 29)"
proof -
  let ?st = "(initial (Mat_init 100 100 (0, 0, 0)))\<lparr>radius := 58\<rparr>"
  have h: "\<not> empty_mat (img ?st)" "rect (img ?st)"
    "empty_mat (result ?st) \<or> same_size (result ?st) (img ?st)"
    by (simp_all add: initial_def not_empty_Mat_init rect_Mat_init)
  have d: "cols (img ?st) = 100" "rows (img ?st) = 100" "radius ?st = 58"
    by (simp_all add: initial_def)
  from halo_pixel_radius [OF h] obtain st' where
    st': "trackbar_halo ?st = Inr st'"
      "radius st' = max 1 (trunc_cast (dmul (real_of_int (min (int (cols (img ?st))) (int (rows (img ?st)))))
                                       (ddiv (real_of_int (radius ?st)) 200)))"
      "cols (img ?st) < 2 ^ 31 \<and> rows (img ?st) < 2 ^ 31 \<and> 0 \<le> radius ?st \<and> radius ?st \<le> 100 \<longrightarrow>
         max 1 (int (min (cols (img ?st)) (rows (img ?st))) * radius ?st div 200 - 1) \<le> radius st'
         \<and> radius st' \<le> max 1 (int (min (cols (img ?st)) (rows (img ?st))) * radius ?st div 200)"
    by blast
  from st'(3) have "28 \<le> radius st' \<and> radius st' \<le> 29"
    unfolding d by simp
  moreover from st'(2) have "radius st' = 28"
    unfolding d using pixel_radius_100_58 by (simp add: pixel_radius_def)
  ultimately have "\<exists>st'. trackbar_halo ?st = Inr st'
         \<and> radius st' = 28 \<and> 28 \<le> radius st' \<and> radius st' \<le> 29"
    using st'(1) by (intro exI [of _ st']) simp
  moreover have "empty_mat (result ?st)" by (simp add: initial_def)
  moreover have "cols (Mat_init 100 100 ((0, 0, 0) :: uchar Vec3)) < 2 ^ 31"
    "rows (Mat_init 100 100 ((0, 0, 0) :: uchar Vec3)) < 2 ^ 31" by simp_all
  ultimately show ?thesis using h(1,2) by simp
qed

text \<open>
  C6. After the halo callback, at every pixel, every channel of the mask lies between
  0.5 and 1, every channel of \<open>display\<close> is at most the same channel of \<open>result\<close>,
  and where the mask is 1 in all three channels the pixel of \<open>display\<close> is the pixel
  of \<open>result\<close>.
\<close>

theorem vignette_never_brightens:
  assumes "\<not> empty_mat (img st)" and "rect (img st)"
    and "empty_mat (result st) \<or> same_size (result st) (img st)"
    and "y < rows (img st)" and "x < cols (img st)"
  shows "\<exists>st'. trackbar_halo st = Inr st' \<and>
           (let h = halo_mask (rows (img st)) (cols (img st)) (radius st') ! y ! x;
                p = result st' ! y ! x;
                q = display st' ! y ! x
            in 1 / 2 \<le> ch0 h \<and> ch0 h \<le> 1 \<and> 1 / 2 \<le> ch1 h \<and> ch1 h \<le> 1
               \<and> 1 / 2 \<le> ch2 h \<and> ch2 h \<le> 1
               \<and> ch0 q \<le> ch0 p \<and> ch1 q \<le> ch1 p \<and> ch2 q \<le> ch2 p
               \<and> (h = (1, 1, 1) \<longrightarrow> q = p))"
proof -
  let ?R = "if empty_mat (result st) then img st else result st"
  let ?P = "pixel_radius (cols (img st)) (rows (img st)) (radius st)"
  let ?H = "halo_mask (rows (img st)) (cols (img st)) ?P"
  have R: "same_size ?R (img st)" using assms(3) by auto
  from rect_nth_length [OF assms(2) R assms(4)] assms(5)
  have src: "y < length ?R" "x < length (?R ! y)" by simp_all
  from halo_mask_nth_length [OF assms(4), of "cols (img st)" ?P] assms(5)
  have hl: "y < length ?H" "x < length (?H ! y)" by simp_all
  have nr: "0 < rows (img st)" using assms(4) by simp
  note rng = halo_mask_range [OF nr assms(4,5)
      pixel_radius_ge_1 [of "cols (img st)" "rows (img st)" "radius st"]]
  have le: "ch0 (VignetteFilter ?R ?H ! y ! x) \<le> ch0 (?R ! y ! x)
       \<and> ch1 (VignetteFilter ?R ?H ! y ! x) \<le> ch1 (?R ! y ! x)
       \<and> ch2 (VignetteFilter ?R ?H ! y ! x) \<le> ch2 (?R ! y ! x)"
    by (rule vignette_pixel [OF src(1) hl(1) src(2) hl(2)]) (use rng in linarith)+
  have eq: "?H ! y ! x = (1, 1, 1) \<Longrightarrow> VignetteFilter ?R ?H ! y ! x = ?R ! y ! x"
    by (rule vignette_pixel_id [OF src(1) hl(1) src(2) hl(2)])
  show ?thesis
    unfolding trackbar_halo_ok [OF assms(1-3)] Let_def
    using rng le eq by simp
qed

theorem vignette_never_brightens_witness:
  "\<not> empty_mat (img (initial [[(10, 20, 30)]])) \<and> rect (img (initial [[(10, 20, 30)]]))
   \<and> empty_mat (result (initial [[(10, 20, 30)]]))
   \<and> (0::nat) < rows (img (initial [[(10, 20, 30)]]))
   \<and> (0::nat) < cols (img (initial [[(10, 20, 30)]]))
   \<and> halo_mask 1 1 1 ! 0 ! 0 = (1, 1, 1)
   \<and> (\<exists>st'. trackbar_halo (initial [[(10, 20, 30)]]) = Inr st'
         \<and> result st' ! 0 ! 0 = (10, 20, 30) \<and> display st' ! 0 ! 0 = (10, 20, 30))"
proof -
  let ?st = "initial [[(10, 20, 30)]]"
  have h: "\<not> empty_mat (img ?st)" "rect (img ?st)"
      "empty_mat (result ?st) \<or> same_size (result ?st) (img ?st)"
      "0 < rows (img ?st)" "0 < cols (img ?st)"
    by (simp_all add: initial_def one_pixel_picture rows_def cols_def)
  have rc: "rows (img ?st) = 1" "cols (img ?st) = 1" "radius ?st = 100"
    by (simp_all add: initial_def rows_def cols_def)
  from vignette_never_brightens [OF h] obtain st' where
    st': "trackbar_halo ?st = Inr st'"
    and px: "halo_mask (rows (img ?st)) (cols (img ?st)) (radius st') ! 0 ! 0 = (1, 1, 1)
               \<longrightarrow> display st' ! 0 ! 0 = result st' ! 0 ! 0"
    unfolding Let_def by blast
  from trackbar_halo_ok [OF h(1-3)] st' have
    r: "radius st' = pixel_radius (Suc 0) (Suc 0) 100" "result st' = [[(10, 20, 30)]]"
    by (auto simp: initial_def rows_def cols_def)
  from px have "display st' ! 0 ! 0 = result st' ! 0 ! 0"
    by (simp add: rc r pixel_radius_1_100 halo_mask_1)
  with st' r(2) have "\<exists>st'. trackbar_halo ?st = Inr st'
         \<and> result st' ! 0 ! 0 = (10, 20, 30) \<and> display st' ! 0 ! 0 = (10, 20, 30)"
    by (intro exI [of _ st']) simp
  with h halo_mask_1 show ?thesis by (simp add: initial_def)
qed

section \<open>The claims about the lookup table\<close>

text \<open>
  C1. For a steepness from 8 to 20 and an index below 256, the entry of the table is
  the value \<open>256 * logistic ((x - 0.5) / (s / 100))\<close>, with \<open>x = i / 256\<close>, rounded
  by \<open>cvRound\<close>: the store into the \<open>uchar\<close> loses nothing. The entry is an integer
  nearest to that value; and the entry stored for any argument of \<open>cvRound\<close> within
  1/200 of that value (as the value computed in \<open>double\<close> is) lies within 1/2 + 1/200
  of it.
\<close>

theorem lut_entry_formula:
  assumes "8 \<le> sv" and "sv \<le> 20" and "i < 256"
  shows "uint (build_lut sv ! i)
           = cvRound (256 * logistic ((real i / 256 - 1 / 2) / (real_of_int sv / 100)))
       \<and> \<bar>real_of_int (uint (build_lut sv ! i))
            - 256 * logistic ((real i / 256 - 1 / 2) / (real_of_int sv / 100))\<bar> \<le> 1 / 2
       \<and> (\<forall>v. \<bar>v - 256 * logistic ((real i / 256 - 1 / 2) / (real_of_int sv / 100))\<bar> \<le> 1 / 200
              \<longrightarrow> \<bar>real_of_int (uint (word_of_int (cvRound v) :: uchar))
                     - 256 * logistic ((real i / 256 - 1 / 2) / (real_of_int sv / 100))\<bar>
                   \<le> 1 / 2 + 1 / 200)"
proof -
  let ?F = "256 * logistic ((real i / 256 - 1 / 2) / (real_of_int sv / 100))"
  have F: "lut_value sv i = ?F" by (rule lut_value_logistic)
  have "\<bar>real_of_int (uint (word_of_int (cvRound v) :: uchar)) - ?F\<bar> \<le> 1 / 2 + 1 / 200"
    if v: "\<bar>v - ?F\<bar> \<le> 1 / 200" for v
  proof -
    from v have "\<bar>v - lut_value sv i\<bar> \<le> 1 / 200" by (simp only: F)
    from cvRound_near_lut_range [OF assms(1,3) this]
    have "uint (word_of_int (cvRound v) :: uchar) = cvRound v"
      by (intro uchar_of_cvRound) simp_all
    then have e: "real_of_int (uint (word_of_int (cvRound v) :: uchar)) = real_of_int (cvRound v)"
      by (simp only:)
    show ?thesis unfolding e using cvRound_error [of v] v by linarith
  qed
  then show ?thesis
    unfolding uint_lut_entry [OF assms(1,3)] F
    using cvRound_error [of ?F] by simp
qed

theorem lut_entry_formula_witness:
  "(8::int) \<le> 10 \<and> (10::int) \<le> 20 \<and> (128::nat) < 256 \<and> uint (build_lut 10 ! 128) = 128"
proof -
  have "uint (build_lut 10 ! 128)
          = cvRound (256 * logistic ((real 128 / 256 - 1 / 2) / (real_of_int 10 / 100)))"
    using lut_entry_formula [of 10 128] by simp
  also have "\<dots> = cvRound (of_int 128)" by (simp add: logistic_def)
  also have "\<dots> = 128" by (rule cvRound_of_int)
  finally show ?thesis by simp
qed

text \<open>
  C7. For a steepness from 8 to 20 the table has 256 entries; at every index the
  rounded value of the formula lies between 0 and 255, the entry is that value, and it
  is what a store that clamps to the range from 0 to 255 holds. So it is for every
  argument of \<open>cvRound\<close> within 1/200 of the exact value of the formula.
\<close>

theorem lut_entries_in_range:
  assumes "8 \<le> sv" and "sv \<le> 20"
  shows "length (build_lut sv) = 256
       \<and> (\<forall>i<256. 0 \<le> cvRound (lut_value sv i) \<and> cvRound (lut_value sv i) \<le> 255
             \<and> uint (build_lut sv ! i) = cvRound (lut_value sv i)
             \<and> build_lut sv ! i = saturate_uchar (lut_value sv i)
             \<and> (\<forall>v. \<bar>v - lut_value sv i\<bar> \<le> 1 / 200 \<longrightarrow>
                    0 \<le> cvRound v \<and> cvRound v \<le> 255
                    \<and> (word_of_int (cvRound v) :: uchar) = saturate_uchar v))"
proof -
  have a: "build_lut sv ! i = saturate_uchar (lut_value sv i)" if "i < 256" for i
    using cvRound_lut_range [OF assms(1) that] that
    by (simp add: build_lut_nth saturate_uchar_def)
  have b: "0 \<le> cvRound v \<and> cvRound v \<le> 255
           \<and> (word_of_int (cvRound v) :: uchar) = saturate_uchar v"
    if "i < 256" "\<bar>v - lut_value sv i\<bar> \<le> 1 / 200" for i v
    using cvRound_near_lut_range [OF assms(1) that] by (simp add: uchar_of_cvRound)
  from a b cvRound_lut_range [OF assms(1)] uint_lut_entry [OF assms(1)] show ?thesis
    by (simp add: length_build_lut)
qed

theorem lut_entries_in_range_witness:
  "(8::int) \<le> 10 \<and> (10::int) \<le> 20 \<and> length (build_lut 10) = 256
   \<and> uint (build_lut 10 ! 128) = cvRound (lut_value 10 128)
   \<and> cvRound (lut_value 10 128) \<le> 255
   \<and> build_lut 10 ! 128 = saturate_uchar (lut_value 10 128)"
proof -
  have h: "(8::int) \<le> 10" "(10::int) \<le> 20" by simp_all
  from lut_entries_in_range [OF h] have l: "length (build_lut 10) = 256"
    and a: "\<forall>i<256. 0 \<le> cvRound (lut_value 10 i) \<and> cvRound (lut_value 10 i) \<le> 255
             \<and> uint (build_lut 10 ! i) = cvRound (lut_value 10 i)
             \<and> build_lut 10 ! i = saturate_uchar (lut_value 10 i)"
    by blast+
  have "(128::nat) < 256" by simp
  from a [rule_format, OF this] h l show ?thesis by blast
qed

end
